theory Spec2Isabelle
  imports Complex_Main "HOL-Library.AList" "HOL-Library.Word"
begin

section \<open>Data model\<close>

text \<open>
  The status of a download item. The source stores it as one of the strings
  "Queued", "Downloading", "Paused", "Done", "Error", "Canceled".
\<close>

datatype status = Queued | Downloading | Paused | Done | Error | Canceled

text \<open>
  \<^verbatim>\<open>DownloadItem\<close>. The optional total size is the field \<^verbatim>\<open>size\<close> of the source
  (renamed, since \<open>size\<close> is a constant of HOL); the optional error text is the field
  \<^verbatim>\<open>error\<close>.
\<close>

record DownloadItem =
  url :: string
  dest_dir :: string
  filename :: "string option"
  size_bytes :: "int option"
  downloaded :: int
  status :: status
  error_msg :: "string option"
  index :: nat

section \<open>Progress aggregation: \<^verbatim>\<open>MainWindow._update_overall\<close>\<close>

text \<open>
  Python's \<^verbatim>\<open>x or d\<close> on an optional integer: \<^verbatim>\<open>None\<close> and \<^verbatim>\<open>0\<close> are both falsy.
\<close>

definition or_else :: "int option \<Rightarrow> int \<Rightarrow> int" where
  "or_else x d = (case x of None \<Rightarrow> d | Some n \<Rightarrow> if n = 0 then d else n)"

text \<open>\<^verbatim>\<open>total = sum(it.size or 0 for it in self.items)\<close>\<close>

definition total_size :: "DownloadItem list \<Rightarrow> int" where
  "total_size its = sum_list (map (\<lambda>it. or_else (size_bytes it) 0) its)"

text \<open>\<^verbatim>\<open>done = sum(min(it.downloaded, it.size or it.downloaded) for it in self.items)\<close>\<close>

definition done_bytes :: "DownloadItem list \<Rightarrow> int" where
  "done_bytes its =
     sum_list (map (\<lambda>it. min (downloaded it) (or_else (size_bytes it) (downloaded it))) its)"

text \<open>\<^verbatim>\<open>finished = sum(1 for it in self.items if it.status == "Done")\<close>\<close>

definition finished_count :: "DownloadItem list \<Rightarrow> nat" where
  "finished_count its = length (filter (\<lambda>it. status it = Done) its)"

text \<open>
  The quotient that the source scales by 1000: \<^verbatim>\<open>done / total\<close> when the total is
  positive, \<^verbatim>\<open>finished / len(self.items)\<close> when it is not and the collection is
  non-empty, and nothing (the bar is set to 0) for an empty collection. The source
  divides two integers in binary floating point; the model takes the exact quotient.
\<close>

definition overall_fraction :: "DownloadItem list \<Rightarrow> rat" where
  "overall_fraction its =
     (if 0 < total_size its then of_int (done_bytes its) / of_int (total_size its)
      else if its \<noteq> [] then of_nat (finished_count its) / of_nat (length its)
      else 0)"

text \<open>Python's \<^verbatim>\<open>int(x)\<close> on a float truncates towards zero.\<close>

definition py_int :: "rat \<Rightarrow> int" where
  "py_int q = (if 0 \<le> q then \<lfloor>q\<rfloor> else \<lceil>q\<rceil>)"

text \<open>
  \<^verbatim>\<open>_update_overall\<close> computes the value handed to \<^verbatim>\<open>overall_bar.setValue\<close> and the
  two numbers of the label "(done)/(count) done".
\<close>

definition update_overall :: "DownloadItem list \<Rightarrow> int \<times> nat \<times> nat" where
  "update_overall its =
     (py_int (1000 * overall_fraction its), finished_count its, length its)"

text \<open>
  The aggregation formula in the words of the specification: the sum of
  min(transferred, size-or-transferred) over the sum of the sizes when the total known
  size is positive, the share of Done items otherwise. An unknown size counts as 0 in
  the sum of sizes, and "size-or-transferred" is the size when there is one.
\<close>

definition spec_overall_fraction :: "DownloadItem list \<Rightarrow> rat" where
  "spec_overall_fraction its =
     (let known = sum_list (map (\<lambda>it. case size_bytes it of None \<Rightarrow> 0 | Some n \<Rightarrow> n) its);
          moved = sum_list (map (\<lambda>it. min (downloaded it)
                    (case size_bytes it of None \<Rightarrow> downloaded it
                     | Some n \<Rightarrow> if n = 0 then downloaded it else n)) its)
      in if 0 < known then of_int moved / of_int known
         else of_nat (length (filter (\<lambda>it. status it = Done) its)) / of_nat (length its))"

text \<open>An item as \<^verbatim>\<open>_add_item\<close> creates it, with the given size, byte count and status.\<close>

definition mk_item :: "int option \<Rightarrow> int \<Rightarrow> status \<Rightarrow> DownloadItem" where
  "mk_item sz d st =
     \<lparr>url = ''http://h/f.part1.rar'', dest_dir = ''downloads'',
      filename = Some ''f.part1.rar'', size_bytes = sz, downloaded = d, status = st,
      error_msg = None, index = 0\<rparr>"

section \<open>Workers and the main window\<close>

text \<open>
  Items and workers are objects: the collection \<^verbatim>\<open>self.items\<close>, the dictionary
  \<^verbatim>\<open>self.workers\<close> and each worker's field \<^verbatim>\<open>item\<close> hold references, and a worker
  reads \<^verbatim>\<open>item.index\<close> and the scheduler reads \<^verbatim>\<open>w.item.status\<close> through them. The
  model keeps the objects in two stores, addressed by natural numbers.
\<close>

type_synonym iref = nat
type_synonym wref = nat

text \<open>
  \<^verbatim>\<open>DownloadWorker\<close>: the item it downloads and its two events \<^verbatim>\<open>_pause\<close> and
  \<^verbatim>\<open>_stop\<close>.
\<close>

record DownloadWorker =
  item :: iref
  pause :: bool
  stop :: bool

text \<open>
  The state of \<^verbatim>\<open>MainWindow\<close>: the two object stores with their next free address,
  \<^verbatim>\<open>self.items\<close>, \<^verbatim>\<open>self.workers\<close> (a dictionary in insertion order, from item index
  to worker), \<^verbatim>\<open>self.max_concurrency\<close>, the value of the spin box \<^verbatim>\<open>self.concurrency\<close>,
  the check box \<^verbatim>\<open>self.chk_extract\<close>, the workers handed to \<^verbatim>\<open>threadpool.start\<close> and
  the number of calls of \<^verbatim>\<open>extract_all\<close>. The calls of \<^verbatim>\<open>model.update_row\<close> and
  \<^verbatim>\<open>_update_overall\<close> that end the methods below repaint the table, the bar and the
  label from this state and change none of it; they are not repeated in the model.
\<close>

record MainWindow =
  store :: "iref \<Rightarrow> DownloadItem"
  next_iref :: nat
  wstore :: "wref \<Rightarrow> DownloadWorker"
  next_wref :: nat
  items :: "iref list"
  workers :: "(nat \<times> wref) list"
  max_concurrency :: int
  concurrency :: int
  chk_extract :: bool
  started :: "wref list"
  extract_calls :: nat

datatype py_error = IndexError

text \<open>\<^verbatim>\<open>MainWindow.__init__\<close>: no items, no workers, three parallel downloads.\<close>

definition init :: MainWindow where
  "init =
     \<lparr>store = (\<lambda>_. mk_item None 0 Queued), next_iref = 0,
      wstore = (\<lambda>_. \<lparr>item = 0, pause = False, stop = False\<rparr>), next_wref = 0,
      items = [], workers = [], max_concurrency = 3, concurrency = 3,
      chk_extract = True, started = [], extract_calls = 0\<rparr>"

text \<open>The items of the collection, read through the store.\<close>

definition item_objs :: "MainWindow \<Rightarrow> DownloadItem list" where
  "item_objs s = map (store s) (items s)"

definition status_at :: "MainWindow \<Rightarrow> nat \<Rightarrow> status" where
  "status_at s i = status (store s (items s ! i))"

text \<open>Assignments to fields of an item or worker object.\<close>

definition set_status :: "iref \<Rightarrow> status \<Rightarrow> MainWindow \<Rightarrow> MainWindow" where
  "set_status r st s = s\<lparr>store := (store s)(r := (store s r)\<lparr>status := st\<rparr>)\<rparr>"


definition request_resume :: "wref \<Rightarrow> MainWindow \<Rightarrow> MainWindow" where
  "request_resume w s = s\<lparr>wstore := (wstore s)(w := (wstore s w)\<lparr>pause := False\<rparr>)\<rparr>"

definition request_cancel :: "wref \<Rightarrow> MainWindow \<Rightarrow> MainWindow" where
  "request_cancel w s = s\<lparr>wstore := (wstore s)(w := (wstore s w)\<lparr>stop := True\<rparr>)\<rparr>"

text \<open>
  \<^verbatim>\<open>_add_item(url)\<close>. The destination is the text of the output label and the file name
  is what \<^verbatim>\<open>infer_filename_from_url(url)\<close> returns; both are arguments here.
\<close>

definition add_item :: "string \<Rightarrow> string \<Rightarrow> string \<Rightarrow> MainWindow \<Rightarrow> MainWindow" where
  "add_item u dest name s =
     (let idx = length (items s);
          it = \<lparr>url = u, dest_dir = dest, filename = Some name, size_bytes = None,
                downloaded = 0, status = Queued, error_msg = None, index = idx\<rparr>;
          r = next_iref s
      in s\<lparr>store := (store s)(r := it), next_iref := Suc r, items := items s @ [r]\<rparr>)"

subsection \<open>\<^verbatim>\<open>_pump_queue\<close>\<close>

definition eligible :: "status \<Rightarrow> bool" where
  "eligible st = (st = Queued \<or> st = Paused \<or> st = Error \<or> st = Canceled)"

text \<open>
  \<^verbatim>\<open>active = sum(1 for w in self.workers.values() if w and w.item.status == "Downloading")\<close>
\<close>

definition active :: "MainWindow \<Rightarrow> nat" where
  "active s =
     length (filter (\<lambda>w. status (store s (item (wstore s w))) = Downloading)
               (map snd (workers s)))"

text \<open>
  One admission: the body of the \<^verbatim>\<open>if item.status in (...)\<close> branch for the item at
  reference \<open>r\<close>. The worker found under the key \<^verbatim>\<open>item.index\<close> is reused, or a new
  one is created and stored under that key.
\<close>

definition admit :: "iref \<Rightarrow> MainWindow \<Rightarrow> MainWindow" where
  "admit r s =
     (let k = index (store s r);
          (w, s1) = (case map_of (workers s) k of
                       Some w \<Rightarrow> (w, s)
                     | None \<Rightarrow>
                         (next_wref s,
                          s\<lparr>wstore := (wstore s)(next_wref s :=
                                         \<lparr>item = r, pause = False, stop = False\<rparr>),
                            next_wref := Suc (next_wref s),
                            workers := AList.update k (next_wref s) (workers s)\<rparr>));
          s2 = request_resume w s1;
          s3 = set_status r Downloading s2
      in s3\<lparr>started := started s3 @ [w]\<rparr>)"

text \<open>The loop \<^verbatim>\<open>for item in self.items\<close> with the counter \<^verbatim>\<open>available_slots\<close>.\<close>

fun pump_loop :: "iref list \<Rightarrow> int \<Rightarrow> MainWindow \<Rightarrow> MainWindow" where
  "pump_loop [] n s = s"
| "pump_loop (r # rs) n s =
     (if n \<le> 0 then s
      else if eligible (status (store s r)) then pump_loop rs (n - 1) (admit r s)
      else pump_loop rs n s)"

definition pump_queue :: "MainWindow \<Rightarrow> MainWindow" where
  "pump_queue s =
     (let available_slots = max_concurrency s - int (active s)
      in if available_slots \<le> 0 then s else pump_loop (items s) available_slots s)"

text \<open>\<^verbatim>\<open>start_queue\<close> reads the spin box and pumps.\<close>

definition start_queue :: "MainWindow \<Rightarrow> MainWindow" where
  "start_queue s = pump_queue (s\<lparr>max_concurrency := concurrency s\<rparr>)"

definition update_concurrency :: "int \<Rightarrow> MainWindow \<Rightarrow> MainWindow" where
  "update_concurrency val s = pump_queue (s\<lparr>max_concurrency := val\<rparr>)"

text \<open>
  The user changes the spin box. Its range is 1..16, and \<^verbatim>\<open>valueChanged\<close>, which is
  connected to \<^verbatim>\<open>_update_concurrency\<close>, is emitted when the value changes.
\<close>

definition set_concurrency :: "int \<Rightarrow> MainWindow \<Rightarrow> MainWindow" where
  "set_concurrency val s =
     (let v = max 1 (min 16 val)
      in if v = concurrency s then s else update_concurrency v (s\<lparr>concurrency := v\<rparr>))"

subsection \<open>Event handlers\<close>

text \<open>
  The subscript \<^verbatim>\<open>xs[i]\<close> of a Python list with an integer: from the front for
  \<open>0 \<le> i\<close>, from the back for \<open>i < 0\<close>, IndexError outside \<open>-len(xs) .. len(xs)-1\<close>.
\<close>

definition py_index :: "'a list \<Rightarrow> int \<Rightarrow> py_error + 'a" where
  "py_index xs i =
     (if 0 \<le> i \<and> i < int (length xs) then Inr (xs ! nat i)
      else if i < 0 \<and> - int (length xs) \<le> i then Inr (xs ! nat (int (length xs) + i))
      else Inl IndexError)"

definition on_progress :: "int \<Rightarrow> int \<Rightarrow> int \<Rightarrow> MainWindow \<Rightarrow> py_error + MainWindow" where
  "on_progress idx dl tot s =
     (case py_index (items s) idx of
        Inl e \<Rightarrow> Inl e
      | Inr r \<Rightarrow>
          Inr (s\<lparr>store := (store s)(r := (store s r)
                 \<lparr>size_bytes := (if 0 < tot then Some tot else size_bytes (store s r)),
                  downloaded := dl\<rparr>)\<rparr>))"

definition on_status :: "int \<Rightarrow> status \<Rightarrow> MainWindow \<Rightarrow> py_error + MainWindow" where
  "on_status idx st s =
     (case py_index (items s) idx of
        Inl e \<Rightarrow> Inl e
      | Inr r \<Rightarrow> Inr (set_status r st s))"

text \<open>\<^verbatim>\<open>on_error\<close> shows a message box.\<close>

definition on_error :: "int \<Rightarrow> string \<Rightarrow> MainWindow \<Rightarrow> MainWindow" where
  "on_error idx message s = s"

definition terminal :: "status \<Rightarrow> bool" where
  "terminal st = (st = Done \<or> st = Error \<or> st = Canceled)"

text \<open>
  \<^verbatim>\<open>extract_all\<close> works on the output directory through patool and leaves the items
  and workers alone; the model counts its calls.
\<close>

definition extract_all :: "MainWindow \<Rightarrow> MainWindow" where
  "extract_all s = s\<lparr>extract_calls := Suc (extract_calls s)\<rparr>"

text \<open>
  \<^verbatim>\<open>on_finished\<close>. The condition is
  \<^verbatim>\<open>all(it.status in ("Done", "Error", "Canceled") for it in self.items if self.items)\<close>:
  the test \<^verbatim>\<open>if self.items\<close> filters the generator.
\<close>

definition on_finished :: "int \<Rightarrow> string \<Rightarrow> MainWindow \<Rightarrow> MainWindow" where
  "on_finished idx path s =
     (if list_all (\<lambda>r. terminal (status (store s r)))
           (filter (\<lambda>r. items s \<noteq> []) (items s))
      then (if chk_extract s then extract_all s else s)
      else s)"

subsection \<open>Actions on the selected rows\<close>



fun resume_rows :: "nat list \<Rightarrow> MainWindow \<Rightarrow> py_error + MainWindow" where
  "resume_rows [] s = Inr s"
| "resume_rows (row # rows) s =
     (case map_of (workers s) row of
        None \<Rightarrow> resume_rows rows s
      | Some w \<Rightarrow>
          if row < length (items s)
          then resume_rows rows (set_status (items s ! row) Downloading (request_resume w s))
          else Inl IndexError)"

definition resume_selected :: "nat list \<Rightarrow> MainWindow \<Rightarrow> py_error + MainWindow" where
  "resume_selected rows s =
     (case resume_rows rows s of Inl e \<Rightarrow> Inl e | Inr s1 \<Rightarrow> Inr (pump_queue s1))"

fun cancel_rows :: "nat list \<Rightarrow> MainWindow \<Rightarrow> py_error + MainWindow" where
  "cancel_rows [] s = Inr s"
| "cancel_rows (row # rows) s =
     (case map_of (workers s) row of
        None \<Rightarrow> cancel_rows rows s
      | Some w \<Rightarrow>
          if row < length (items s)
          then cancel_rows rows (set_status (items s ! row) Canceled (request_cancel w s))
          else Inl IndexError)"

definition cancel_selected :: "nat list \<Rightarrow> MainWindow \<Rightarrow> py_error + MainWindow" where
  "cancel_selected rows s = cancel_rows rows s"

text \<open>
  \<^verbatim>\<open>remove_selected\<close>: for each row, from the highest down, cancel the worker stored
  under the row, delete \<^verbatim>\<open>self.items[row]\<close> and pop the key \<^verbatim>\<open>row\<close> from the
  dictionary; then number the remaining items from 0.
\<close>

fun remove_rows :: "nat list \<Rightarrow> MainWindow \<Rightarrow> py_error + MainWindow" where
  "remove_rows [] s = Inr s"
| "remove_rows (row # rows) s =
     (let s1 = (case map_of (workers s) row of None \<Rightarrow> s | Some w \<Rightarrow> request_cancel w s)
      in if row < length (items s1)
         then remove_rows rows
                (s1\<lparr>items := take row (items s1) @ drop (Suc row) (items s1),
                    workers := AList.delete row (workers s1)\<rparr>)
         else Inl IndexError)"

fun reindex_from :: "nat \<Rightarrow> iref list \<Rightarrow> (iref \<Rightarrow> DownloadItem) \<Rightarrow> (iref \<Rightarrow> DownloadItem)" where
  "reindex_from i [] h = h"
| "reindex_from i (r # rs) h = reindex_from (Suc i) rs (h(r := (h r)\<lparr>index := i\<rparr>))"

definition remove_selected :: "nat list \<Rightarrow> MainWindow \<Rightarrow> py_error + MainWindow" where
  "remove_selected rows s =
     (case remove_rows (rev (sort rows)) s of
        Inl e \<Rightarrow> Inl e
      | Inr s1 \<Rightarrow> Inr (s1\<lparr>store := reindex_from 0 (items s1) (store s1)\<rparr>))"

subsection \<open>Notions used to state the scheduling properties\<close>

text \<open>The number of items of the collection whose status is Downloading.\<close>

definition running :: "MainWindow \<Rightarrow> nat" where
  "running s = length (filter (\<lambda>r. status (store s r) = Downloading) (items s))"

text \<open>The number of eligible items that stand before position \<open>i\<close> of the collection.\<close>

definition eligible_before :: "MainWindow \<Rightarrow> nat \<Rightarrow> nat" where
  "eligible_before s i =
     length (filter (\<lambda>r. eligible (status (store s r))) (take i (items s)))"

text \<open>
  What the loop of \<^verbatim>\<open>_pump_queue\<close> does to the list of statuses, with \<open>n\<close> slots: used
  in the proofs only.
\<close>

fun admit_first :: "int \<Rightarrow> status list \<Rightarrow> status list" where
  "admit_first n [] = []"
| "admit_first n (x # xs) =
     (if n \<le> 0 then x # xs
      else if eligible x then Downloading # admit_first (n - 1) xs
      else x # admit_first n xs)"

text \<open>The list of the statuses of the collection, in display order.\<close>

definition statuses :: "MainWindow \<Rightarrow> status list" where
  "statuses s = map (\<lambda>r. status (store s r)) (items s)"

text \<open>Four items added with the spin box at 2; nothing started yet.\<close>

definition four_queued :: MainWindow where
  "four_queued =
     add_item ''http://h/d.rar'' ''downloads'' ''d.rar''
       (add_item ''http://h/c.rar'' ''downloads'' ''c.rar''
          (add_item ''http://h/b.rar'' ''downloads'' ''b.rar''
             (add_item ''http://h/a.rar'' ''downloads'' ''a.rar''
                (set_concurrency 2 init))))"


text \<open>
  The task map is linked to the collection: the items are distinct objects numbered by
  position, every worker of the map is stored under the index of its item, and every
  Downloading item has a worker in the map. Used in the proofs only.
\<close>

definition linked :: "MainWindow \<Rightarrow> bool" where
  "linked s =
     (distinct (items s)
      \<and> (\<forall>r\<in>set (items s). r < next_iref s)
      \<and> (\<forall>i<length (items s). index (store s (items s ! i)) = i)
      \<and> distinct (map fst (workers s))
      \<and> (\<forall>(k, w)\<in>set (workers s).
            k < length (items s) \<and> w < next_wref s \<and> item (wstore s w) = items s ! k)
      \<and> (\<forall>i<length (items s). status_at s i = Downloading \<longrightarrow> i \<in> fst ` set (workers s)))"

text \<open>Two states used in the examples: one and two items added, then Start.\<close>

definition one_running :: MainWindow where
  "one_running = start_queue (add_item ''http://h/a.rar'' ''downloads'' ''a.rar'' init)"

definition two_running :: MainWindow where
  "two_running =
     start_queue
       (add_item ''http://h/b.rar'' ''downloads'' ''b.rar''
          (add_item ''http://h/a.rar'' ''downloads'' ''a.rar'' init))"


definition four_running :: MainWindow where
  "four_running =
     start_queue
       (add_item ''http://h/d.rar'' ''downloads'' ''d.rar''
          (add_item ''http://h/c.rar'' ''downloads'' ''c.rar''
             (add_item ''http://h/b.rar'' ''downloads'' ''b.rar''
                (add_item ''http://h/a.rar'' ''downloads'' ''a.rar'' init))))"

section \<open>The worker: \<^verbatim>\<open>DownloadWorker.run\<close>\<close>

text \<open>
  One run of a worker touches two files, the partial file at \<^verbatim>\<open>item.temp_path()\<close> and
  the final file at \<^verbatim>\<open>item.final_path()\<close>; the two paths differ by the suffix
  \<^verbatim>\<open>.part\<close>. The model keeps the content of each, \<open>None\<close> for a file that does not
  exist. A write is taken to reach the file at once (the source writes through a
  buffered file that is closed on every way out of the \<^verbatim>\<open>with\<close> block).
\<close>

type_synonym bytes = "8 word list"

record files =
  temp :: "bytes option"
  final :: "bytes option"

text \<open>\<^verbatim>\<open>CHUNK_SIZE = 1024 * 1024\<close>\<close>

definition CHUNK_SIZE :: nat where
  "CHUNK_SIZE = 1024 * 1024"

text \<open>
  The network, as the run sees it. The HEAD request fails with a RequestException or
  gives the number in its Content-Length header (0 when there is none). The GET request
  fails with a RequestException or gives a response: its status code, the text of the
  HTTPError that \<^verbatim>\<open>raise_for_status\<close> raises for it, the positive number of its
  Content-Length header if it has a usable one, the chunks that \<^verbatim>\<open>iter_content\<close>
  yields, and the text of the RequestException that ends the stream, if one does.
\<close>

datatype head_result = HeadFailed | HeadOk int

record response =
  status_code :: int
  error_text :: string
  content_length :: "int option"
  body :: "bytes list"
  body_error :: "string option"

datatype get_result = GetFailed string | GetOk response

text \<open>The signals of \<^verbatim>\<open>DownloadSignals\<close>, each with the index it carries.\<close>

datatype signal =
  ProgressSig nat int int
| StatusSig nat status
| ErrorSig nat string
| FinishedSig nat string

text \<open>The open mode of the partial file: \<^verbatim>\<open>"ab"\<close> or \<^verbatim>\<open>"wb"\<close>.\<close>

datatype mode = AppendMode | WriteMode

text \<open>
  Where the run stands in its loop \<^verbatim>\<open>for chunk in r.iter_content(...)\<close>: about to
  take the next chunk; holding a chunk at \<^verbatim>\<open>if self.is_stopped()\<close>; at the test
  \<^verbatim>\<open>self.is_paused()\<close> of the pause loop; at its test \<^verbatim>\<open>not self.is_stopped()\<close>; at
  \<^verbatim>\<open>if not chunk\<close> before the write; or returned. The chunks still to come are kept
  with it.
\<close>

datatype pc =
  Fetch "bytes list"
| CheckStop bytes "bytes list"
| CheckPause bytes "bytes list"
| CheckStop2 bytes "bytes list"
| Write bytes "bytes list"
| Returned

text \<open>
  The state of a run: the item (the worker reads and writes \<^verbatim>\<open>downloaded\<close>, \<^verbatim>\<open>size\<close>
  and \<^verbatim>\<open>error\<close> and reads \<^verbatim>\<open>index\<close>), the two files, the events \<^verbatim>\<open>_pause\<close> and
  \<^verbatim>\<open>_stop\<close>, the signals emitted so far, the offset of the Range header sent with
  the GET request, the error that ends the stream, the string \<^verbatim>\<open>final_path\<close>, and the
  position in the loop.
\<close>

record wstate =
  w_item :: DownloadItem
  w_files :: files
  w_pause :: bool
  w_stop :: bool
  w_out :: "signal list"
  w_range :: "nat option"
  w_stream_error :: "string option"
  w_final_path :: string
  w_pc :: pc

text \<open>
  The handler \<^verbatim>\<open>except RequestException as e\<close>: record the text, emit error and the
  status Error. The partial file is not touched.
\<close>

definition fail_run :: "string \<Rightarrow> wstate \<Rightarrow> wstate" where
  "fail_run e w =
     (let it = (w_item w)\<lparr>error_msg := Some e\<rparr>
      in w\<lparr>w_item := it,
           w_out := w_out w @ [ErrorSig (index it) e, StatusSig (index it) Error],
           w_pc := Returned\<rparr>)"

text \<open>
  After the loop: \<^verbatim>\<open>os.replace(temp_path, final_path)\<close>, a last progress signal, Done
  and finished.
\<close>

definition finish_run :: "wstate \<Rightarrow> wstate" where
  "finish_run w =
     (let it = w_item w
      in w\<lparr>w_files := \<lparr>temp = None, final = temp (w_files w)\<rparr>,
           w_out := w_out w @
             [ProgressSig (index it) (downloaded it) (or_else (size_bytes it) (- 1)),
              StatusSig (index it) Done,
              FinishedSig (index it) (w_final_path w)],
           w_pc := Returned\<rparr>)"

text \<open>
  The final file exists and the partial file does not: the item is reported complete
  without a request.
\<close>

definition short_circuit :: "bytes \<Rightarrow> wstate \<Rightarrow> wstate" where
  "short_circuit f w =
     (let n = int (length f);
          it = (w_item w)\<lparr>size_bytes := Some n, downloaded := n\<rparr>
      in w\<lparr>w_item := it,
           w_out := w_out w @
             [ProgressSig (index it) n (or_else (Some n) (- 1)),
              StatusSig (index it) Done,
              FinishedSig (index it) (w_final_path w)],
           w_pc := Returned\<rparr>)"

text \<open>
  From the response to the open file: the two tests on the status code that give the
  offset up, the total size taken from the response when the item has none, and
  \<^verbatim>\<open>open(temp_path, mode)\<close>.
\<close>

definition enter_loop :: "nat \<Rightarrow> mode \<Rightarrow> response \<Rightarrow> wstate \<Rightarrow> wstate" where
  "enter_loop resume_from mode0 r w =
     (let it = w_item w;
          code = status_code r;
          (rf1, d1, m1) =
            (if resume_from \<noteq> 0 \<and> code \<noteq> 206 \<and> code \<noteq> 200 then (0, 0, WriteMode)
             else (resume_from, downloaded it, mode0));
          (rf2, d2, m2) =
            (if code = 200 \<and> rf1 \<noteq> 0 then (0, 0, WriteMode) else (rf1, d1, m1));
          sz = (case size_bytes it of
                  Some n \<Rightarrow> Some n
                | None \<Rightarrow>
                    (case content_length r of
                       Some cl \<Rightarrow> if 0 < cl then Some (cl + int rf2) else None
                     | None \<Rightarrow> None));
          fs = w_files w;
          fs' = (case m2 of
                   WriteMode \<Rightarrow> fs\<lparr>temp := Some []\<rparr>
                 | AppendMode \<Rightarrow> fs\<lparr>temp := Some (case temp fs of Some t \<Rightarrow> t | None \<Rightarrow> [])\<rparr>)
      in w\<lparr>w_item := it\<lparr>size_bytes := sz, downloaded := d2\<rparr>,
           w_files := fs',
           w_stream_error := body_error r,
           w_pc := Fetch (body r)\<rparr>)"

text \<open>
  The HEAD request, the Range header, the status Downloading and the GET request.
  \<^verbatim>\<open>raise_for_status\<close> raises for the codes 400 to 599.
\<close>

definition fetch :: "nat \<Rightarrow> head_result \<Rightarrow> (nat option \<Rightarrow> get_result) \<Rightarrow> wstate \<Rightarrow> wstate" where
  "fetch resume_from hres http_get w =
     (let it0 = w_item w;
          it1 = (case hres of
                   HeadFailed \<Rightarrow> it0
                 | HeadOk n \<Rightarrow> it0\<lparr>size_bytes := (if n = 0 then None else Some n)\<rparr>);
          mode0 = (if resume_from \<noteq> 0 then AppendMode else WriteMode);
          range = (if resume_from \<noteq> 0 then Some resume_from else None);
          it2 = (if resume_from \<noteq> 0 then it1\<lparr>downloaded := int resume_from\<rparr> else it1);
          w1 = w\<lparr>w_item := it2, w_range := range,
                 w_out := w_out w @ [StatusSig (index it2) Downloading]\<rparr>
      in case http_get range of
           GetFailed e \<Rightarrow> fail_run e w1
         | GetOk r \<Rightarrow>
             if 400 \<le> status_code r \<and> status_code r < 600 then fail_run (error_text r) w1
             else enter_loop resume_from mode0 r w1)"

text \<open>
  The offset a run resumes from: the size of the partial file if it exists, else 0.
\<close>

definition resume_offset :: "files \<Rightarrow> nat" where
  "resume_offset fs = (case temp fs of None \<Rightarrow> 0 | Some t \<Rightarrow> length t)"

text \<open>
  The run up to its loop, for an item, the two files, the answers of the network, the
  string \<^verbatim>\<open>final_path\<close> and the two events as they stand when the run begins.
\<close>

definition start_run ::
  "head_result \<Rightarrow> (nat option \<Rightarrow> get_result) \<Rightarrow> string \<Rightarrow> DownloadItem \<Rightarrow> files \<Rightarrow>
   bool \<Rightarrow> bool \<Rightarrow> wstate" where
  "start_run hres http_get fpath it fs p st =
     (let w = \<lparr>w_item = it, w_files = fs, w_pause = p, w_stop = st, w_out = [],
               w_range = None, w_stream_error = None, w_final_path = fpath,
               w_pc = Returned\<rparr>
      in case temp fs of
           Some t \<Rightarrow> fetch (resume_offset fs) hres http_get w
         | None \<Rightarrow>
             (case final fs of
                Some f \<Rightarrow> short_circuit f w
              | None \<Rightarrow> fetch (resume_offset fs) hres http_get w))"

text \<open>
  The run and the main thread interleave. An event is one atomic action of the run
  (with the outcome of the clock test \<^verbatim>\<open>now - last_emit > 0.05\<close>, which only the write
  consults) or one of the three requests of the main thread.
\<close>

datatype event = Tick bool | ReqPause | ReqResume | ReqCancel

fun tick :: "bool \<Rightarrow> wstate \<Rightarrow> wstate" where
  "tick due w =
     (case w_pc w of
        Fetch [] \<Rightarrow>
          (case w_stream_error w of Some e \<Rightarrow> fail_run e w | None \<Rightarrow> finish_run w)
      | Fetch (c # cs) \<Rightarrow> w\<lparr>w_pc := CheckStop c cs\<rparr>
      | CheckStop c cs \<Rightarrow>
          if w_stop w
          then w\<lparr>w_out := w_out w @ [StatusSig (index (w_item w)) Canceled], w_pc := Returned\<rparr>
          else w\<lparr>w_pc := CheckPause c cs\<rparr>
      | CheckPause c cs \<Rightarrow>
          if w_pause w then w\<lparr>w_pc := CheckStop2 c cs\<rparr> else w\<lparr>w_pc := Write c cs\<rparr>
      | CheckStop2 c cs \<Rightarrow>
          if \<not> w_stop w
          then w\<lparr>w_out := w_out w @ [StatusSig (index (w_item w)) Paused],
                 w_pc := CheckPause c cs\<rparr>
          else w\<lparr>w_pc := Write c cs\<rparr>
      | Write c cs \<Rightarrow>
          if c = [] then w\<lparr>w_pc := Fetch cs\<rparr>
          else
            (let it = (w_item w)\<lparr>downloaded := downloaded (w_item w) + int (length c)\<rparr>;
                 fs = (w_files w)\<lparr>temp := Some ((case temp (w_files w) of Some t \<Rightarrow> t
                                                    | None \<Rightarrow> []) @ c)\<rparr>
             in w\<lparr>w_item := it, w_files := fs,
                  w_out := w_out w @
                    (if due
                     then [ProgressSig (index it) (downloaded it) (or_else (size_bytes it) (- 1))]
                     else []),
                  w_pc := Fetch cs\<rparr>)
      | Returned \<Rightarrow> w)"

fun step :: "event \<Rightarrow> wstate \<Rightarrow> wstate" where
  "step (Tick due) w = tick due w"
| "step ReqPause w = w\<lparr>w_pause := True\<rparr>"
| "step ReqResume w = w\<lparr>w_pause := False\<rparr>"
| "step ReqCancel w = w\<lparr>w_stop := True\<rparr>"

fun run_sched :: "event list \<Rightarrow> wstate \<Rightarrow> wstate" where
  "run_sched [] w = w"
| "run_sched (e # es) w = run_sched es (step e w)"

text \<open>The chunks a run has not written yet, the one it holds included.\<close>

definition pending :: "wstate \<Rightarrow> bytes list" where
  "pending w =
     (case w_pc w of
        Fetch cs \<Rightarrow> cs
      | CheckStop c cs \<Rightarrow> c # cs
      | CheckPause c cs \<Rightarrow> c # cs
      | CheckStop2 c cs \<Rightarrow> c # cs
      | Write c cs \<Rightarrow> c # cs
      | Returned \<Rightarrow> [])"

text \<open>
  The relation between a run in its loop and the loop's start, where the partial file
  held \<open>t0\<close>, the item's byte count was \<open>d0\<close> and the chunks \<open>bdy\<close> were to come: the
  file holds \<open>t0\<close> and the chunks taken so far, and the byte count has grown by their
  length; after a return through the cancel branch this still holds, for the chunks
  before the one in hand. Used in the proofs only.
\<close>

definition tracked :: "bytes \<Rightarrow> int \<Rightarrow> bytes list \<Rightarrow> wstate \<Rightarrow> bool" where
  "tracked t0 d0 bdy w =
     (if w_pc w = Returned
      then w_out w \<noteq> []
           \<and> (last (w_out w) = StatusSig (index (w_item w)) Canceled \<longrightarrow>
                (\<exists>ys c zs. bdy = ys @ c # zs
                   \<and> temp (w_files w) = Some (t0 @ concat ys)
                   \<and> downloaded (w_item w) = d0 + int (length (concat ys))))
      else (\<exists>ys. bdy = ys @ pending w
              \<and> temp (w_files w) = Some (t0 @ concat ys)
              \<and> downloaded (w_item w) = d0 + int (length (concat ys))))"

text \<open>States and files used in the examples.\<close>

definition ex_files :: files where
  "ex_files = \<lparr>temp = Some [1, 2], final = None\<rparr>"

definition no_files :: files where
  "no_files = \<lparr>temp = None, final = None\<rparr>"

text \<open>A fresh item, as \<^verbatim>\<open>_add_item\<close> creates it, and a server for the examples.\<close>

definition fresh_item :: DownloadItem where
  "fresh_item =
     \<lparr>url = ''http://h/a.rar'', dest_dir = ''downloads'', filename = Some ''a.rar'',
      size_bytes = None, downloaded = 0, status = Queued, error_msg = None, index = 0\<rparr>"

definition reply :: "int \<Rightarrow> bytes list \<Rightarrow> response" where
  "reply code cs =
     \<lparr>status_code = code, error_text = [], content_length = None, body = cs,
      body_error = None\<rparr>"

text \<open>
  A server that ignores Range and sends three chunks; a run of a fresh item against it
  that is cancelled after the first chunk; and a run that starts paused and has reached
  the pause loop with the first chunk in hand.
\<close>

definition ex_server :: "nat option \<Rightarrow> get_result" where
  "ex_server rg = GetOk (reply 200 [[1, 2, 3], [4, 5], [6]])"

definition ex_canceled :: wstate where
  "ex_canceled =
     run_sched
       [Tick False, Tick False, Tick False, Tick False, ReqCancel, Tick False, Tick False]
       (start_run HeadFailed ex_server ''downloads/a.rar'' fresh_item no_files False False)"

text \<open>
  A server that honours Range and sends the two chunks that remain, and the next run of
  the cancelled item against a server: the pump has called \<^verbatim>\<open>request_resume\<close> on the
  worker, so pause is clear, and nothing has cleared \<^verbatim>\<open>_stop\<close>, so stop is set.
\<close>

definition resume_server :: "nat option \<Rightarrow> get_result" where
  "resume_server rg = GetOk (reply 206 [[4, 5], [6]])"

definition ex_rerun :: "(nat option \<Rightarrow> get_result) \<Rightarrow> wstate" where
  "ex_rerun srv =
     start_run HeadFailed srv ''downloads/a.rar'' (w_item ex_canceled) (w_files ex_canceled)
       False True"

definition ex_paused :: wstate where
  "ex_paused =
     run_sched [Tick False, Tick False]
       (start_run HeadFailed ex_server ''downloads/a.rar'' fresh_item no_files True False)"

section \<open>Properties of the progress aggregation\<close>

lemma or_else_zero_eq: "or_else x 0 = (case x of None \<Rightarrow> 0 | Some n \<Rightarrow> n)"
  by (simp add: or_else_def split: option.splits)

lemma total_size_eq_known:
  "total_size its = sum_list (map (\<lambda>it. case size_bytes it of None \<Rightarrow> 0 | Some n \<Rightarrow> n) its)"
  by (simp add: total_size_def or_else_zero_eq)

lemma done_bytes_eq_moved:
  "done_bytes its = sum_list (map (\<lambda>it. min (downloaded it)
       (case size_bytes it of None \<Rightarrow> downloaded it
        | Some n \<Rightarrow> if n = 0 then downloaded it else n)) its)"
  by (simp add: done_bytes_def or_else_def)

text \<open>
  C7. The overall fraction is sum(min(transferred, size-or-transferred)) / sum(size)
  when the total known size is positive and count(Done) / count(items) otherwise (on a
  non-empty collection; on the empty one the source sets 0). For sizes [100, 100] with
  transferred [50, 100] it is 3/4, and for unknown sizes with statuses
  [Done, Downloading, Queued] it is 1/3.
\<close>

theorem overall_fraction_formula:
  "(its \<noteq> [] \<longrightarrow> overall_fraction its = spec_overall_fraction its)
   \<and> (its = [] \<longrightarrow> overall_fraction its = 0)
   \<and> (0 < total_size its \<longrightarrow>
        overall_fraction its = of_int (done_bytes its) / of_int (total_size its))
   \<and> (\<not> 0 < total_size its \<longrightarrow>
        overall_fraction its = of_nat (finished_count its) / of_nat (length its))
   \<and> overall_fraction [mk_item (Some 100) 50 Downloading, mk_item (Some 100) 100 Done] = 3 / 4
   \<and> overall_fraction [mk_item None d1 Done, mk_item None d2 Downloading,
                        mk_item None d3 Queued] = 1 / 3"
proof -
  have a: "its \<noteq> [] \<longrightarrow> overall_fraction its = spec_overall_fraction its"
    unfolding overall_fraction_def spec_overall_fraction_def Let_def
    by (simp add: total_size_eq_known [symmetric] done_bytes_eq_moved [symmetric]
        finished_count_def)
  have b: "its = [] \<longrightarrow> overall_fraction its = 0"
    by (simp add: overall_fraction_def total_size_def)
  have c: "0 < total_size its \<longrightarrow>
        overall_fraction its = of_int (done_bytes its) / of_int (total_size its)"
    by (simp add: overall_fraction_def)
  have d: "\<not> 0 < total_size its \<longrightarrow>
        overall_fraction its = of_nat (finished_count its) / of_nat (length its)"
    by (simp add: overall_fraction_def)
  have e: "overall_fraction [mk_item (Some 100) 50 Downloading, mk_item (Some 100) 100 Done]
             = 3 / 4"
    by (simp add: overall_fraction_def total_size_def done_bytes_def or_else_def mk_item_def)
  have f: "overall_fraction [mk_item None d1 Done, mk_item None d2 Downloading,
                        mk_item None d3 Queued] = 1 / 3"
    by (simp add: overall_fraction_def total_size_def finished_count_def or_else_def
        mk_item_def)
  from a b c d e f show ?thesis by blast
qed

theorem overall_fraction_formula_witness:
  "[mk_item (Some 8) 2 Downloading] \<noteq> []
   \<and> 0 < total_size [mk_item (Some 8) 2 Downloading]
   \<and> overall_fraction [mk_item (Some 8) 2 Downloading] = 1 / 4
   \<and> spec_overall_fraction [mk_item (Some 8) 2 Downloading] = 1 / 4
   \<and> \<not> 0 < total_size [mk_item None 7 Done]
   \<and> overall_fraction [mk_item None 7 Done] = 1
   \<and> overall_fraction [] = 0"
proof -
  have ne: "[mk_item (Some 8) 2 Downloading] \<noteq> []" by simp
  have pos: "0 < total_size [mk_item (Some 8) 2 Downloading]"
    by (simp add: total_size_def or_else_def mk_item_def)
  have npos: "\<not> 0 < total_size [mk_item None 7 Done]"
    by (simp add: total_size_def or_else_def mk_item_def)
  have v1: "of_int (done_bytes [mk_item (Some 8) 2 Downloading])
              / of_int (total_size [mk_item (Some 8) 2 Downloading]) = (1 / 4 :: rat)"
    by (simp add: total_size_def done_bytes_def or_else_def mk_item_def)
  have v2: "of_nat (finished_count [mk_item None 7 Done])
              / of_nat (length [mk_item None 7 Done]) = (1 :: rat)"
    by (simp add: finished_count_def mk_item_def)
  note F1 = overall_fraction_formula [of "[mk_item (Some 8) 2 Downloading]"]
  note F2 = overall_fraction_formula [of "[mk_item None 7 Done]"]
  note F3 = overall_fraction_formula [of "[]"]
  from F1 pos have "overall_fraction [mk_item (Some 8) 2 Downloading]
      = of_int (done_bytes [mk_item (Some 8) 2 Downloading])
        / of_int (total_size [mk_item (Some 8) 2 Downloading])"
    by blast
  then have r1: "overall_fraction [mk_item (Some 8) 2 Downloading] = 1 / 4"
    using v1 by (rule trans)
  from F1 ne have "overall_fraction [mk_item (Some 8) 2 Downloading]
      = spec_overall_fraction [mk_item (Some 8) 2 Downloading]"
    by blast
  with r1 have r2: "spec_overall_fraction [mk_item (Some 8) 2 Downloading] = 1 / 4"
    by metis
  from F2 npos have "overall_fraction [mk_item None 7 Done]
      = of_nat (finished_count [mk_item None 7 Done]) / of_nat (length [mk_item None 7 Done])"
    by blast
  then have r3: "overall_fraction [mk_item None 7 Done] = 1"
    using v2 by (rule trans)
  from F3 have r4: "overall_fraction [] = 0" by blast
  from ne pos npos r1 r2 r3 r4 show ?thesis by blast
qed

text \<open>
  C3. The overall fraction is claimed to lie in [0, 1] for every collection. With one
  item of known size 100 and nothing transferred, and one item of unknown size with
  500 bytes transferred, the source adds the 500 bytes to the numerator and nothing to
  the denominator: the fraction is 5, and the value handed to the bar, whose range is
  0..1000, is 5000.
\<close>

theorem overall_fraction_exceeds_one:
  "overall_fraction [mk_item (Some 100) 0 Queued, mk_item None 500 Downloading] = 5
   \<and> fst (update_overall [mk_item (Some 100) 0 Queued, mk_item None 500 Downloading]) = 5000
   \<and> \<not> overall_fraction [mk_item (Some 100) 0 Queued, mk_item None 500 Downloading] \<le> 1"
  by (simp add: update_overall_def py_int_def overall_fraction_def total_size_def
      done_bytes_def or_else_def mk_item_def)

section \<open>Properties of the event handlers and of removal\<close>

lemmas scenario_defs =
  one_running_def two_running_def start_queue_def pump_queue_def add_item_def init_def
  active_def admit_def request_resume_def request_cancel_def set_status_def eligible_def
  Let_def remove_selected_def mk_item_def

lemma py_index_error_iff:
  "(py_index xs i = Inl IndexError) = (\<not> (- int (length xs) \<le> i \<and> i < int (length xs)))"
  by (auto simp: py_index_def)

lemma on_status_error_iff:
  "(on_status i st s = Inl IndexError)
     = (\<not> (- int (length (items s)) \<le> i \<and> i < int (length (items s))))"
proof -
  have "(on_status i st s = Inl IndexError) = (py_index (items s) i = Inl IndexError)"
    by (cases "py_index (items s) i") (simp_all add: on_status_def)
  then show ?thesis by (simp add: py_index_error_iff)
qed

lemma on_progress_error_iff:
  "(on_progress i d t s = Inl IndexError)
     = (\<not> (- int (length (items s)) \<le> i \<and> i < int (length (items s))))"
proof -
  have "(on_progress i d t s = Inl IndexError) = (py_index (items s) i = Inl IndexError)"
    by (cases "py_index (items s) i") (simp_all add: on_progress_def)
  then show ?thesis by (simp add: py_index_error_iff)
qed

text \<open>
  C9. \<^verbatim>\<open>on_progress\<close> and \<^verbatim>\<open>on_status\<close> read \<^verbatim>\<open>self.items[index]\<close> unchecked: for an
  index \<open>k\<close> as a worker emits it (the field \<^verbatim>\<open>index\<close> of its item, never negative)
  the lookup raises IndexError exactly when \<open>k\<close> is not below the length of the
  collection. After one item is added, started and removed, its worker (cancel
  requested, still holding the removed item, whose index is still 0) emits index 0 and
  both handlers raise on the now empty collection.
\<close>

theorem handlers_unchecked_index:
  "(on_status (int k) st s = Inl IndexError) = (length (items s) \<le> k)
   \<and> (on_progress (int k) d t s = Inl IndexError) = (length (items s) \<le> k)
   \<and> workers one_running = [(0, 0)] \<and> started one_running = [0]
   \<and> (\<exists>s1. remove_selected [0] one_running = Inr s1
         \<and> items s1 = []
         \<and> stop (wstore s1 0)
         \<and> index (store s1 (item (wstore s1 0))) = 0
         \<and> on_status (int (index (store s1 (item (wstore s1 0))))) Canceled s1
             = Inl IndexError
         \<and> on_progress (int (index (store s1 (item (wstore s1 0))))) 5 (- 1) s1
             = Inl IndexError)"
proof -
  have a: "(on_status (int k) st s = Inl IndexError) = (length (items s) \<le> k)"
    by (simp add: on_status_error_iff) linarith
  have b: "(on_progress (int k) d t s = Inl IndexError) = (length (items s) \<le> k)"
    by (simp add: on_progress_error_iff) linarith
  have c: "workers one_running = [(0, 0)]" "started one_running = [0]"
    by (simp_all add: scenario_defs)
  have d: "\<exists>s1. remove_selected [0] one_running = Inr s1
         \<and> items s1 = []
         \<and> stop (wstore s1 0)
         \<and> index (store s1 (item (wstore s1 0))) = 0
         \<and> on_status (int (index (store s1 (item (wstore s1 0))))) Canceled s1
             = Inl IndexError
         \<and> on_progress (int (index (store s1 (item (wstore s1 0))))) 5 (- 1) s1
             = Inl IndexError"
    by (simp add: scenario_defs on_status_def on_progress_def py_index_def)
  from a b c d show ?thesis by blast
qed

text \<open>
  C4. After \<^verbatim>\<open>remove_selected\<close> the surviving tasks are claimed to sit in the task map
  under the new indices of their items. With two running items, removing row 0 leaves
  the second item alone in the collection with index 0, while its worker stays in
  \<^verbatim>\<open>self.workers\<close> under the old key 1: the lookup \<^verbatim>\<open>self.workers.get(item.index)\<close>
  finds no worker for it.
\<close>

theorem remove_selected_keeps_old_keys:
  "workers two_running = [(0, 0), (1, 1)]
   \<and> item (wstore two_running 1) = 1
   \<and> (\<exists>s1. remove_selected [0] two_running = Inr s1
         \<and> items s1 = [1]
         \<and> index (store s1 1) = 0
         \<and> status (store s1 1) = Downloading
         \<and> workers s1 = [(1, 1)]
         \<and> item (wstore s1 1) = 1
         \<and> map_of (workers s1) (index (store s1 1)) = None)"
  by (simp add: scenario_defs)

text \<open>
  C2. The trigger is claimed to fire exactly once per batch and only on a non-empty
  collection. \<^verbatim>\<open>on_finished\<close> evaluates its condition at every finished event: when
  the two Done statuses of a batch of two arrive before the two finished events,
  \<^verbatim>\<open>extract_all\<close> is called twice; when the last item of a batch ends in Error, which
  emits no finished event, every item is terminal and \<^verbatim>\<open>extract_all\<close> was never called;
  and on the empty collection the condition holds and \<^verbatim>\<open>extract_all\<close> is called.
\<close>

theorem extraction_not_once_per_batch:
  "(\<exists>s1 s2. on_status 0 Done two_running = Inr s1 \<and> on_status 1 Done s1 = Inr s2
       \<and> extract_calls two_running = 0
       \<and> extract_calls (on_finished 1 ''downloads/b.rar''
                          (on_finished 0 ''downloads/a.rar'' s2)) = 2)
   \<and> (\<exists>s1 s2. on_status 0 Done two_running = Inr s1
       \<and> on_status 1 Error (on_finished 0 ''downloads/a.rar'' s1) = Inr s2
       \<and> list_all (\<lambda>r. terminal (status (store s2 r))) (items s2)
       \<and> chk_extract s2
       \<and> extract_calls s2 = 0)
   \<and> items init = [] \<and> extract_calls init = 0
   \<and> extract_calls (on_finished 0 ''downloads/a.rar'' init) = 1"
  by (simp add: scenario_defs on_status_def py_index_def on_finished_def extract_all_def
      terminal_def)

text \<open>
  C2, as the code has it. At a finished event on a non-empty collection,
  \<^verbatim>\<open>extract_all\<close> is called (once) exactly when every item has a terminal status and
  extraction is enabled, and nothing else changes; with extraction disabled the event
  changes nothing. The condition is evaluated at every finished event.
\<close>

theorem on_finished_trigger:
  "(items s \<noteq> [] \<longrightarrow>
      on_finished i p s =
        (if list_all (\<lambda>r. terminal (status (store s r))) (items s) \<and> chk_extract s
         then s\<lparr>extract_calls := Suc (extract_calls s)\<rparr> else s))
   \<and> (\<not> chk_extract s \<longrightarrow> on_finished i p s = s)"
  by (simp add: on_finished_def extract_all_def)

theorem on_finished_trigger_witness:
  "(\<exists>s1 s2. on_status 0 Done two_running = Inr s1 \<and> on_status 1 Canceled s1 = Inr s2
      \<and> items s2 \<noteq> []
      \<and> list_all (\<lambda>r. terminal (status (store s2 r))) (items s2) \<and> chk_extract s2
      \<and> extract_calls (on_finished 0 ''downloads/a.rar'' s2) = Suc (extract_calls s2)
      \<and> items s1 \<noteq> []
      \<and> \<not> list_all (\<lambda>r. terminal (status (store s1 r))) (items s1)
      \<and> on_finished 0 ''downloads/a.rar'' s1 = s1
      \<and> \<not> chk_extract (s2\<lparr>chk_extract := False\<rparr>)
      \<and> on_finished 0 ''downloads/a.rar'' (s2\<lparr>chk_extract := False\<rparr>)
          = s2\<lparr>chk_extract := False\<rparr>)"
proof -
  obtain s1 where s1: "on_status 0 Done two_running = Inr s1"
    by (simp add: on_status_def py_index_def scenario_defs)
  obtain s2 where s2: "on_status 1 Canceled s1 = Inr s2"
    using s1 by (auto simp: on_status_def py_index_def scenario_defs)
  have i1: "items s1 = [0, 1]" and i2: "items s2 = [0, 1]"
    using s1 s2 by (auto simp: on_status_def py_index_def scenario_defs)
  have t2: "list_all (\<lambda>r. terminal (status (store s2 r))) (items s2)"
    using s1 s2 by (auto simp: on_status_def py_index_def scenario_defs terminal_def)
  have c2: "chk_extract s2"
    using s1 s2 by (auto simp: on_status_def py_index_def scenario_defs)
  have t1: "\<not> list_all (\<lambda>r. terminal (status (store s1 r))) (items s1)"
    using s1 by (auto simp: on_status_def py_index_def scenario_defs terminal_def)
  have ne1: "items s1 \<noteq> []" and ne2: "items s2 \<noteq> []"
    using i1 i2 by simp_all
  have f2: "extract_calls (on_finished 0 ''downloads/a.rar'' s2) = Suc (extract_calls s2)"
    using on_finished_trigger [of s2 0 "''downloads/a.rar''"] ne2 t2 c2 by simp
  have f1: "on_finished 0 ''downloads/a.rar'' s1 = s1"
    using on_finished_trigger [of s1 0 "''downloads/a.rar''"] ne1 t1 by simp
  have c3: "\<not> chk_extract (s2\<lparr>chk_extract := False\<rparr>)" by simp
  have f3: "on_finished 0 ''downloads/a.rar'' (s2\<lparr>chk_extract := False\<rparr>)
          = s2\<lparr>chk_extract := False\<rparr>"
    using on_finished_trigger [of "s2\<lparr>chk_extract := False\<rparr>" 0 "''downloads/a.rar''"] c3
    by blast
  from s1 s2 ne1 ne2 t1 t2 c2 f1 f2 c3 f3 show ?thesis by blast
qed

section \<open>Properties of the scheduler\<close>

lemma admit_fields [simp]:
  "items (admit r s) = items s"
  "max_concurrency (admit r s) = max_concurrency s"
  "concurrency (admit r s) = concurrency s"
  "chk_extract (admit r s) = chk_extract s"
  "extract_calls (admit r s) = extract_calls s"
  "next_iref (admit r s) = next_iref s"
  by (simp_all add: admit_def Let_def request_resume_def set_status_def split: option.splits prod.splits)

lemma admit_store:
  "store (admit r s) = (store s)(r := (store s r)\<lparr>status := Downloading\<rparr>)"
  by (simp add: admit_def Let_def request_resume_def set_status_def split: option.splits prod.splits)

lemma pump_loop_items [simp]: "items (pump_loop rs n s) = items s"
  by (induction rs n s rule: pump_loop.induct) simp_all

lemma pump_loop_max [simp]: "max_concurrency (pump_loop rs n s) = max_concurrency s"
  by (induction rs n s rule: pump_loop.induct) simp_all

lemma pump_loop_other: "r \<notin> set rs \<Longrightarrow> store (pump_loop rs n s) r = store s r"
  by (induction rs n s rule: pump_loop.induct) (auto simp: admit_store)

lemma pump_loop_statuses:
  "distinct rs \<Longrightarrow>
   map (\<lambda>r. status (store (pump_loop rs n s) r)) rs
     = admit_first n (map (\<lambda>r. status (store s r)) rs)"
proof (induction rs n s rule: pump_loop.induct)
  case (1 n s)
  then show ?case by simp
next
  case (2 r rs n s)
  have same: "map (\<lambda>x. status (store (admit r s) x)) rs = map (\<lambda>x. status (store s x)) rs"
    using "2.prems" by (auto simp: admit_store)
  show ?case
  proof (cases "n \<le> 0")
    case True
    then show ?thesis by simp
  next
    case False
    show ?thesis
    proof (cases "eligible (status (store s r))")
      case True
      have "status (store (pump_loop rs (n - 1) (admit r s)) r) = Downloading"
        using "2.prems" by (simp add: pump_loop_other admit_store)
      with True False "2.IH"(1) "2.prems" same show ?thesis
        by simp
    next
      case el: False
      with False "2.IH"(2) "2.prems" show ?thesis
        by (simp add: pump_loop_other)
    qed
  qed
qed

lemma admit_first_length [simp]: "length (admit_first n xs) = length xs"
  by (induction n xs rule: admit_first.induct) simp_all

lemma admit_first_nth:
  "i < length xs \<Longrightarrow>
   admit_first n xs ! i =
     (if eligible (xs ! i) \<and> int (length (filter eligible (take i xs))) < n
      then Downloading else xs ! i)"
proof (induction n xs arbitrary: i rule: admit_first.induct)
  case (1 n)
  then show ?case by simp
next
  case (2 n x xs)
  show ?case
  proof (cases i)
    case 0
    then show ?thesis by simp
  next
    case (Suc j)
    with 2 show ?thesis by (auto simp: )
  qed
qed

lemma admit_first_running:
  "length (filter (\<lambda>x. x = Downloading) (admit_first n xs))
     = length (filter (\<lambda>x. x = Downloading) xs)
       + min (nat n) (length (filter eligible xs))"
proof (induction n xs rule: admit_first.induct)
  case (1 n)
  then show ?case by simp
next
  case (2 n x xs)
  then show ?case by (auto simp: eligible_def min_def)
qed

lemma admit_first_eligible:
  "length (filter eligible (admit_first n xs))
     = length (filter eligible xs) - min (nat n) (length (filter eligible xs))"
proof (induction n xs rule: admit_first.induct)
  case (1 n)
  then show ?case by simp
next
  case (2 n x xs)
  then show ?case by (auto simp: eligible_def min_def)
qed


lemma admit_first_nonpos: "n \<le> 0 \<Longrightarrow> admit_first n xs = xs"
  by (cases xs) simp_all


lemma statuses_pump_queue:
  "distinct (items s) \<Longrightarrow>
   statuses (pump_queue s) = admit_first (max_concurrency s - int (active s)) (statuses s)"
  by (simp add: statuses_def pump_queue_def Let_def pump_loop_statuses admit_first_nonpos)

lemma pump_queue_items [simp]: "items (pump_queue s) = items s"
  by (simp add: pump_queue_def Let_def)

lemma running_statuses: "running s = length (filter (\<lambda>x. x = Downloading) (statuses s))"
  by (simp add: running_def statuses_def filter_map comp_def)

lemma eligible_before_statuses:
  "eligible_before s i = length (filter eligible (take i (statuses s)))"
  by (simp add: eligible_before_def statuses_def take_map filter_map comp_def)

lemma status_at_statuses: "i < length (items s) \<Longrightarrow> status_at s i = statuses s ! i"
  by (simp add: status_at_def statuses_def)

lemma ex_eligible_filter:
  "(\<exists>i<length xs. eligible (xs ! i)) = (0 < length (filter eligible xs))"
proof -
  have "(\<exists>i<length xs. eligible (xs ! i)) = (\<exists>x\<in>set xs. eligible x)"
    by (metis in_set_conv_nth)
  then show ?thesis by (simp add: filter_empty_conv)
qed

text \<open>
  What one pump cycle does to the statuses of a collection of distinct items, with the
  free slots the cycle computes (the ceiling minus the number of workers of the task
  map whose item is Downloading): the item at position \<open>i\<close> is marked Downloading
  exactly when it is eligible (Queued, Paused, Error or Canceled) and fewer eligible
  items than there are free slots stand before it, and every other item keeps its
  status. If an eligible item is left after the cycle, every free slot was used, and
  when the task map counted exactly the Downloading items of the collection the number
  of Downloading items has reached the ceiling.
\<close>

lemma pump_queue_admission:
  "distinct (items s) \<Longrightarrow>
   items (pump_queue s) = items s
   \<and> (\<forall>i<length (items s).
         status_at (pump_queue s) i =
           (if eligible (status_at s i)
               \<and> int (eligible_before s i) < max_concurrency s - int (active s)
            then Downloading else status_at s i))
   \<and> ((\<exists>i<length (items s). eligible (status_at (pump_queue s) i)) \<longrightarrow>
         int (running (pump_queue s))
           = int (running s) + max 0 (max_concurrency s - int (active s)))
   \<and> (active s = running s \<longrightarrow>
         (\<exists>i<length (items s). eligible (status_at (pump_queue s) i)) \<longrightarrow>
         max_concurrency s \<le> int (running (pump_queue s)))"
proof -
  assume d: "distinct (items s)"
  let ?n = "max_concurrency s - int (active s)"
  let ?s' = "pump_queue s"
  have st: "statuses ?s' = admit_first ?n (statuses s)"
    using d by (rule statuses_pump_queue)
  have len: "length (statuses s) = length (items s)"
    by (simp add: statuses_def)
  have a: "\<forall>i<length (items s).
         status_at ?s' i =
           (if eligible (status_at s i) \<and> int (eligible_before s i) < ?n
            then Downloading else status_at s i)"
  proof (intro allI impI)
    fix i assume i: "i < length (items s)"
    then have "status_at ?s' i = admit_first ?n (statuses s) ! i"
      using st by (simp add: status_at_statuses)
    also have "\<dots> = (if eligible (statuses s ! i)
                         \<and> int (length (filter eligible (take i (statuses s)))) < ?n
                       then Downloading else statuses s ! i)"
      using i len by (simp add: admit_first_nth)
    finally show "status_at ?s' i =
           (if eligible (status_at s i) \<and> int (eligible_before s i) < ?n
            then Downloading else status_at s i)"
      using i by (simp add: status_at_statuses eligible_before_statuses)
  qed
  have b: "int (running ?s') = int (running s) + max 0 ?n"
    if ex: "\<exists>i<length (items s). eligible (status_at ?s' i)"
  proof -
    from ex have "\<exists>i<length (statuses ?s'). eligible (statuses ?s' ! i)"
      by (auto simp: status_at_statuses statuses_def)
    then have "0 < length (filter eligible (statuses ?s'))"
      by (simp add: ex_eligible_filter)
    then have lt: "nat ?n < length (filter eligible (statuses s))"
      by (simp add: st admit_first_eligible)
    have "running ?s' = running s + min (nat ?n) (length (filter eligible (statuses s)))"
      by (simp add: running_statuses st admit_first_running)
    with lt have "running ?s' = running s + nat ?n" by simp
    then show ?thesis by simp
  qed
  have c: "max_concurrency s \<le> int (running ?s')"
    if eq: "active s = running s"
      and ex: "\<exists>i<length (items s). eligible (status_at ?s' i)"
    using b [OF ex] eq by simp
  from a b c show ?thesis by simp
qed


lemmas scenario_defs2 = scenario_defs four_queued_def set_concurrency_def update_concurrency_def

lemma pump_queue_admission_example:
  "distinct (items four_queued)
   \<and> max_concurrency four_queued = 2
   \<and> statuses four_queued = [Queued, Queued, Queued, Queued]
   \<and> statuses (pump_queue four_queued) = [Downloading, Downloading, Queued, Queued]
   \<and> int (running (pump_queue four_queued)) = max_concurrency four_queued
   \<and> (\<exists>s2. on_status 0 Done (pump_queue four_queued) = Inr s2
         \<and> distinct (items s2)
         \<and> statuses s2 = [Done, Downloading, Queued, Queued]
         \<and> statuses (pump_queue s2) = [Done, Downloading, Downloading, Queued])"
proof -
  let ?s = four_queued
  have it: "items ?s = [0, 1, 2, 3]" by (simp add: scenario_defs2)
  have d: "distinct (items ?s)" by (simp add: it)
  have m: "max_concurrency ?s = 2" by (simp add: scenario_defs2)
  have ac: "active ?s = 0" by (simp add: scenario_defs2)
  have s0: "statuses ?s = [Queued, Queued, Queued, Queued]"
    by (simp add: statuses_def scenario_defs2)
  have r0: "running ?s = 0" by (simp add: running_statuses s0)
  note T = pump_queue_admission [OF d]
  have at: "status_at (pump_queue ?s) i =
           (if eligible (status_at ?s i) \<and> int (eligible_before ?s i) < 2
            then Downloading else status_at ?s i)" if "i < 4" for i
    using T that by (simp add: it m ac)
  have e: "eligible_before ?s 0 = 0" "eligible_before ?s 1 = 1" "eligible_before ?s 2 = 2"
    "eligible_before ?s 3 = 3"
    by (simp_all add: eligible_before_statuses s0 eligible_def numeral_3_eq_3 numeral_2_eq_2)
  have q: "status_at ?s 0 = Queued" "status_at ?s 1 = Queued" "status_at ?s 2 = Queued"
    "status_at ?s 3 = Queued"
    by (simp_all add: status_at_statuses it s0)
  have p: "status_at (pump_queue ?s) 0 = Downloading" "status_at (pump_queue ?s) 1 = Downloading"
    "status_at (pump_queue ?s) 2 = Queued" "status_at (pump_queue ?s) 3 = Queued"
    using at [of 0] at [of 1] at [of 2] at [of 3] e q by (simp_all add: eligible_def)
  have ip: "items (pump_queue ?s) = [0, 1, 2, 3]" using T it by simp
  have s1: "statuses (pump_queue ?s) = [Downloading, Downloading, Queued, Queued]"
    using p by (simp add: statuses_def status_at_def it)
  have ex: "\<exists>i<length (items ?s). eligible (status_at (pump_queue ?s) i)"
    using p(3) by (auto simp: it eligible_def intro!: exI [of _ 2])
  have r1: "int (running (pump_queue ?s)) = max_concurrency ?s"
    using T ex by (simp add: r0 m ac)
  define s2 where "s2 = set_status 0 Done (pump_queue ?s)"
  have s2: "on_status 0 Done (pump_queue ?s) = Inr s2"
    by (simp add: on_status_def py_index_def it s2_def)
  have i2: "items s2 = [0, 1, 2, 3]"
    by (simp add: s2_def set_status_def it)
  have d2: "distinct (items s2)" by (simp add: i2)
  have st2: "statuses s2 = [Done, Downloading, Queued, Queued]"
    using s1 by (simp add: s2_def set_status_def statuses_def it)
  have m2: "max_concurrency s2 = 2"
    using m by (simp add: s2_def set_status_def pump_queue_def Let_def)
  have w2: "workers s2 = [(0, 0), (1, 1)]"
    by (simp add: s2_def scenario_defs2)
  have ws2: "item (wstore s2 0) = 0" "item (wstore s2 1) = 1"
    by (simp_all add: s2_def scenario_defs2)
  have a2: "active s2 = 1"
    using st2 ws2 by (simp add: active_def w2 statuses_def i2)
  note T2 = pump_queue_admission [OF d2]
  have at2: "status_at (pump_queue s2) i =
           (if eligible (status_at s2 i) \<and> int (eligible_before s2 i) < 1
            then Downloading else status_at s2 i)" if "i < 4" for i
    using T2 that by (simp add: i2 m2 a2)
  have e2: "eligible_before s2 0 = 0" "eligible_before s2 1 = 0" "eligible_before s2 2 = 0"
    "eligible_before s2 3 = 1"
    by (simp_all add: eligible_before_statuses st2 eligible_def numeral_3_eq_3 numeral_2_eq_2)
  have q2: "status_at s2 0 = Done" "status_at s2 1 = Downloading" "status_at s2 2 = Queued"
    "status_at s2 3 = Queued"
    by (simp_all add: status_at_statuses i2 st2)
  have p2: "status_at (pump_queue s2) 0 = Done" "status_at (pump_queue s2) 1 = Downloading"
    "status_at (pump_queue s2) 2 = Downloading" "status_at (pump_queue s2) 3 = Queued"
    using at2 [of 0] at2 [of 1] at2 [of 2] at2 [of 3] e2 q2 by (simp_all add: eligible_def)
  have ip2: "items (pump_queue s2) = [0, 1, 2, 3]" using T2 i2 by simp
  have s3: "statuses (pump_queue s2) = [Done, Downloading, Downloading, Queued]"
    using p2 by (simp add: statuses_def status_at_def i2)
  from d m s0 s1 r1 s2 d2 st2 s3 show ?thesis by blast
qed

text \<open>
  C5. Every pump cycle is claimed to admit the eligible items to the free slots. Start
  on four items with the ceiling 3 runs the first three; Remove Selected on rows 0 and
  2 leaves the second and the fourth, renumbered 0 and 1, and leaves the second item's
  worker in the task map under its old key 1. The next cycle has two free slots and
  one eligible item, the fourth: it finds a worker under the fourth item's index 1,
  marks the fourth item Downloading and hands that worker, whose item is the second
  one, to the thread pool. No worker is created, the only worker of the task map
  belongs to the second item, and nothing downloads the fourth item.
\<close>

theorem pump_starts_other_worker:
  "statuses four_running = [Downloading, Downloading, Downloading, Queued]
   \<and> workers four_running = [(0, 0), (1, 1), (2, 2)]
   \<and> started four_running = [0, 1, 2]
   \<and> max_concurrency four_running = 3
   \<and> (\<exists>s1. remove_selected [0, 2] four_running = Inr s1
         \<and> items s1 = [1, 3]
         \<and> map (\<lambda>r. index (store s1 r)) (items s1) = [0, 1]
         \<and> statuses s1 = [Downloading, Queued]
         \<and> workers s1 = [(1, 1)]
         \<and> item (wstore s1 1) = 1
         \<and> active s1 = 1
         \<and> statuses (pump_queue s1) = [Downloading, Downloading]
         \<and> started (pump_queue s1) = started s1 @ [1]
         \<and> workers (pump_queue s1) = [(1, 1)]
         \<and> map (\<lambda>kw. item (wstore (pump_queue s1) (snd kw))) (workers (pump_queue s1)) = [1]
         \<and> next_wref (pump_queue s1) = next_wref s1)"
  by (simp add: scenario_defs2 four_running_def statuses_def)

section \<open>The concurrency ceiling\<close>











lemma linked_max_concurrency [simp]: "linked (s\<lparr>max_concurrency := v\<rparr>) = linked s"
  by (simp add: linked_def status_at_def)

lemma linked_concurrency [simp]: "linked (s\<lparr>concurrency := v\<rparr>) = linked s"
  by (simp add: linked_def status_at_def)

lemma running_max_concurrency [simp]: "running (s\<lparr>max_concurrency := v\<rparr>) = running s"
  by (simp add: running_def)

lemma running_concurrency [simp]: "running (s\<lparr>concurrency := v\<rparr>) = running s"
  by (simp add: running_def)

lemma pump_queue_max [simp]: "max_concurrency (pump_queue s) = max_concurrency s"
  by (simp add: pump_queue_def Let_def)

lemma pump_loop_concurrency [simp]: "concurrency (pump_loop rs n s) = concurrency s"
  by (induction rs n s rule: pump_loop.induct) simp_all

lemma pump_queue_concurrency [simp]: "concurrency (pump_queue s) = concurrency s"
  by (simp add: pump_queue_def Let_def)


















section \<open>Properties of the worker\<close>

declare tick.simps [simp del]

lemma tick_Fetch_Nil:
  "w_pc w = Fetch [] \<Longrightarrow>
   tick d w = (case w_stream_error w of Some e \<Rightarrow> fail_run e w | None \<Rightarrow> finish_run w)"
  by (simp add: tick.simps)

lemma tick_Fetch_Cons: "w_pc w = Fetch (c # cs) \<Longrightarrow> tick d w = w\<lparr>w_pc := CheckStop c cs\<rparr>"
  by (simp add: tick.simps)

lemma tick_CheckStop:
  "w_pc w = CheckStop c cs \<Longrightarrow>
   tick d w =
     (if w_stop w
      then w\<lparr>w_out := w_out w @ [StatusSig (index (w_item w)) Canceled], w_pc := Returned\<rparr>
      else w\<lparr>w_pc := CheckPause c cs\<rparr>)"
  by (simp add: tick.simps)

lemma tick_CheckPause:
  "w_pc w = CheckPause c cs \<Longrightarrow>
   tick d w = (if w_pause w then w\<lparr>w_pc := CheckStop2 c cs\<rparr> else w\<lparr>w_pc := Write c cs\<rparr>)"
  by (simp add: tick.simps)

lemma tick_CheckStop2:
  "w_pc w = CheckStop2 c cs \<Longrightarrow>
   tick d w =
     (if \<not> w_stop w
      then w\<lparr>w_out := w_out w @ [StatusSig (index (w_item w)) Paused], w_pc := CheckPause c cs\<rparr>
      else w\<lparr>w_pc := Write c cs\<rparr>)"
  by (simp add: tick.simps)

lemma tick_Write:
  "w_pc w = Write c cs \<Longrightarrow>
   tick d w =
     (if c = [] then w\<lparr>w_pc := Fetch cs\<rparr>
      else
        w\<lparr>w_item := (w_item w)\<lparr>downloaded := downloaded (w_item w) + int (length c)\<rparr>,
          w_files := (w_files w)\<lparr>temp := Some ((case temp (w_files w) of Some t \<Rightarrow> t
                                                    | None \<Rightarrow> []) @ c)\<rparr>,
          w_out := w_out w @
            (if d
             then [ProgressSig (index (w_item w)) (downloaded (w_item w) + int (length c))
                     (or_else (size_bytes (w_item w)) (- 1))]
             else []),
          w_pc := Fetch cs\<rparr>)"
  by (simp add: tick.simps Let_def)

lemma tick_Returned: "w_pc w = Returned \<Longrightarrow> tick d w = w"
  by (simp add: tick.simps)

lemmas tick_pc =
  tick_Fetch_Nil tick_Fetch_Cons tick_CheckStop tick_CheckPause tick_CheckStop2 tick_Write
  tick_Returned

lemma run_sched_append: "run_sched (es @ fs) w = run_sched fs (run_sched es w)"
  by (induction es arbitrary: w) simp_all

lemma run_sched_Returned:
  "w_pc w = Returned \<Longrightarrow>
   w_pc (run_sched es w) = Returned \<and> w_files (run_sched es w) = w_files w
   \<and> w_item (run_sched es w) = w_item w \<and> w_out (run_sched es w) = w_out w"
proof (induction es arbitrary: w)
  case Nil
  then show ?case by simp
next
  case (Cons e es)
  have "w_pc (step e w) = Returned \<and> w_files (step e w) = w_files w
        \<and> w_item (step e w) = w_item w \<and> w_out (step e w) = w_out w"
    using Cons.prems by (cases e) (simp_all add: tick_Returned)
  with Cons.IH [of "step e w"] show ?case by simp
qed

text \<open>One chunk, with neither event set: four actions.\<close>

lemma free_chunk:
  assumes "w_pc w = Fetch (c # cs)" "\<not> w_pause w" "\<not> w_stop w" "temp (w_files w) = Some t"
  shows "w_pc (run_sched (replicate 4 (Tick False)) w) = Fetch cs
     \<and> \<not> w_pause (run_sched (replicate 4 (Tick False)) w)
     \<and> \<not> w_stop (run_sched (replicate 4 (Tick False)) w)
     \<and> w_files (run_sched (replicate 4 (Tick False)) w) = (w_files w)\<lparr>temp := Some (t @ c)\<rparr>
     \<and> w_item (run_sched (replicate 4 (Tick False)) w)
         = (w_item w)\<lparr>downloaded := downloaded (w_item w) + int (length c)\<rparr>
     \<and> w_out (run_sched (replicate 4 (Tick False)) w) = w_out w
     \<and> w_stream_error (run_sched (replicate 4 (Tick False)) w) = w_stream_error w
     \<and> w_final_path (run_sched (replicate 4 (Tick False)) w) = w_final_path w"
proof -
  have r: "replicate 4 (Tick False) = [Tick False, Tick False, Tick False, Tick False]"
    by (simp add: numeral_eq_Suc)
  show ?thesis
    using assms unfolding r by (cases "c = []") (simp_all add: tick_pc)
qed


lemma free_run:
  "w_pc w = Fetch cs \<Longrightarrow> \<not> w_pause w \<Longrightarrow> \<not> w_stop w \<Longrightarrow> temp (w_files w) = Some t \<Longrightarrow>
   w_stream_error w = None \<Longrightarrow>
   w_pc (run_sched (replicate (4 * length cs + 1) (Tick False)) w) = Returned
   \<and> w_files (run_sched (replicate (4 * length cs + 1) (Tick False)) w)
       = \<lparr>temp = None, final = Some (t @ concat cs)\<rparr>
   \<and> w_item (run_sched (replicate (4 * length cs + 1) (Tick False)) w)
       = (w_item w)\<lparr>downloaded := downloaded (w_item w) + int (length (concat cs))\<rparr>
   \<and> w_out (run_sched (replicate (4 * length cs + 1) (Tick False)) w)
       = w_out w @
         [ProgressSig (index (w_item w))
            (downloaded (w_item w) + int (length (concat cs)))
            (or_else (size_bytes (w_item w)) (- 1)),
          StatusSig (index (w_item w)) Done,
          FinishedSig (index (w_item w)) (w_final_path w)]"
proof (induction cs arbitrary: w t)
  case Nil
  then show ?case by (simp add: tick_pc finish_run_def Let_def)
next
  case (Cons c cs)
  let ?v = "run_sched (replicate 4 (Tick False)) w"
  have split: "replicate (4 * length (c # cs) + 1) (Tick False)
      = replicate 4 (Tick False) @ replicate (4 * length cs + 1) (Tick False)"
  proof -
    have "4 * length (c # cs) + 1 = 4 + (4 * length cs + 1)" by simp
    then show ?thesis by (simp only: replicate_add)
  qed
  from free_chunk [OF Cons.prems(1-4)]
  have v: "w_pc ?v = Fetch cs" "\<not> w_pause ?v" "\<not> w_stop ?v"
    "w_files ?v = (w_files w)\<lparr>temp := Some (t @ c)\<rparr>"
    "w_item ?v = (w_item w)\<lparr>downloaded := downloaded (w_item w) + int (length c)\<rparr>"
    "w_out ?v = w_out w" "w_stream_error ?v = w_stream_error w"
    "w_final_path ?v = w_final_path w"
    by simp_all
  have tv: "temp (w_files ?v) = Some (t @ c)" by (simp add: v)
  have ev: "w_stream_error ?v = None" using Cons.prems(5) by (simp add: v)
  from Cons.IH [OF v(1) v(2) v(3) tv ev]
  show ?case
    unfolding split run_sched_append by (simp add: v add.assoc)
qed


text \<open>
  C8. A run finds a non-empty partial file, so it asks for the range from its length,
  and the server answers 200. Then the offset is given up: the item's byte count is 0,
  the partial file is opened truncated, the loop starts on the whole body, and the only
  signal so far is the status Downloading, with no error recorded. Left alone (no
  pause, no cancel, no network error) the run ends with the final file equal to the
  body alone, the byte count equal to its length, and Done as its status.
\<close>

theorem range_ignored_restart:
  assumes t: "temp fs = Some t" and ne: "t \<noteq> []"
    and g: "http_get (Some (length t)) = GetOk r" and c: "status_code r = 200"
  shows "w_range (start_run hres http_get fpath it fs p st) = Some (length t)
     \<and> downloaded (w_item (start_run hres http_get fpath it fs p st)) = 0
     \<and> w_files (start_run hres http_get fpath it fs p st) = fs\<lparr>temp := Some []\<rparr>
     \<and> w_pc (start_run hres http_get fpath it fs p st) = Fetch (body r)
     \<and> w_out (start_run hres http_get fpath it fs p st) = [StatusSig (index it) Downloading]
     \<and> error_msg (w_item (start_run hres http_get fpath it fs p st)) = error_msg it
     \<and> (body_error r = None \<and> \<not> p \<and> \<not> st \<longrightarrow>
          w_pc (run_sched (replicate (4 * length (body r) + 1) (Tick False))
                  (start_run hres http_get fpath it fs p st)) = Returned
          \<and> w_files (run_sched (replicate (4 * length (body r) + 1) (Tick False))
                  (start_run hres http_get fpath it fs p st))
              = \<lparr>temp = None, final = Some (concat (body r))\<rparr>
          \<and> downloaded (w_item (run_sched (replicate (4 * length (body r) + 1) (Tick False))
                  (start_run hres http_get fpath it fs p st)))
              = int (length (concat (body r)))
          \<and> error_msg (w_item (run_sched (replicate (4 * length (body r) + 1) (Tick False))
                  (start_run hres http_get fpath it fs p st))) = error_msg it
          \<and> (\<exists>sz. w_out (run_sched (replicate (4 * length (body r) + 1) (Tick False))
                  (start_run hres http_get fpath it fs p st))
              = [StatusSig (index it) Downloading,
                 ProgressSig (index it) (int (length (concat (body r)))) sz,
                 StatusSig (index it) Done,
                 FinishedSig (index it) fpath]))"
proof -
  define ini where "ini = start_run hres http_get fpath it fs p st"
  define fin where "fin = run_sched (replicate (4 * length (body r) + 1) (Tick False)) ini"
  have off: "resume_offset fs = length t" "length t \<noteq> 0"
    using t ne by (simp_all add: resume_offset_def)
  have w0: "w_range ini = Some (length t)" "downloaded (w_item ini) = 0"
    "w_files ini = fs\<lparr>temp := Some []\<rparr>" "w_pc ini = Fetch (body r)"
    "w_out ini = [StatusSig (index it) Downloading]"
    "error_msg (w_item ini) = error_msg it"
    "index (w_item ini) = index it" "w_final_path ini = fpath"
    "w_pause ini = p" "w_stop ini = st" "w_stream_error ini = body_error r"
    using t g c off unfolding ini_def
    by (simp_all add: start_run_def fetch_def enter_loop_def Let_def split: head_result.splits)
  have part2: "body_error r = None \<and> \<not> p \<and> \<not> st \<longrightarrow>
          w_pc fin = Returned
          \<and> w_files fin = \<lparr>temp = None, final = Some (concat (body r))\<rparr>
          \<and> downloaded (w_item fin) = int (length (concat (body r)))
          \<and> error_msg (w_item fin) = error_msg it
          \<and> (\<exists>sz. w_out fin
              = [StatusSig (index it) Downloading,
                 ProgressSig (index it) (int (length (concat (body r)))) sz,
                 StatusSig (index it) Done,
                 FinishedSig (index it) fpath])"
  proof (intro impI)
    assume free: "body_error r = None \<and> \<not> p \<and> \<not> st"
    have tmp: "temp (w_files ini) = Some []" by (simp add: w0)
    have np: "\<not> w_pause ini" "\<not> w_stop ini" "w_stream_error ini = None"
      using free by (simp_all add: w0)
    note fr = free_run [OF w0(4) np(1) np(2) tmp np(3), folded fin_def]
    from fr have 1: "w_pc fin = Returned" by blast
    from fr have 2: "w_files fin = \<lparr>temp = None, final = Some (concat (body r))\<rparr>"
      by simp
    from fr have it': "w_item fin
        = (w_item ini)\<lparr>downloaded := downloaded (w_item ini) + int (length (concat (body r)))\<rparr>"
      by blast
    have 3: "downloaded (w_item fin) = int (length (concat (body r)))"
      by (simp add: it' w0)
    have 4: "error_msg (w_item fin) = error_msg it"
      by (simp add: it' w0)
    from fr have "w_out fin = w_out ini @
         [ProgressSig (index (w_item ini))
            (downloaded (w_item ini) + int (length (concat (body r))))
            (or_else (size_bytes (w_item ini)) (- 1)),
          StatusSig (index (w_item ini)) Done,
          FinishedSig (index (w_item ini)) (w_final_path ini)]"
      by blast
    then have 5: "\<exists>sz. w_out fin
              = [StatusSig (index it) Downloading,
                 ProgressSig (index it) (int (length (concat (body r)))) sz,
                 StatusSig (index it) Done,
                 FinishedSig (index it) fpath]"
      by (simp add: w0)
    from 1 2 3 4 5 show "w_pc fin = Returned
          \<and> w_files fin = \<lparr>temp = None, final = Some (concat (body r))\<rparr>
          \<and> downloaded (w_item fin) = int (length (concat (body r)))
          \<and> error_msg (w_item fin) = error_msg it
          \<and> (\<exists>sz. w_out fin
              = [StatusSig (index it) Downloading,
                 ProgressSig (index it) (int (length (concat (body r)))) sz,
                 StatusSig (index it) Done,
                 FinishedSig (index it) fpath])"
      by (intro conjI)
  qed
  show ?thesis
    unfolding ini_def [symmetric] fin_def [symmetric]
    by (intro conjI; (rule w0 part2))
qed


theorem range_ignored_restart_witness:
  "temp ex_files = Some [1, 2] \<and> [1, 2 :: 8 word] \<noteq> []
   \<and> (\<lambda>_. GetOk (reply 200 [[7, 8, 9]])) (Some (length [1, 2 :: 8 word]))
       = GetOk (reply 200 [[7, 8, 9]])
   \<and> status_code (reply 200 [[7, 8, 9]]) = 200
   \<and> body_error (reply 200 [[7, 8, 9]]) = None
   \<and> w_range (start_run HeadFailed (\<lambda>_. GetOk (reply 200 [[7, 8, 9]])) ''downloads/a.rar''
         fresh_item ex_files False False) = Some 2
   \<and> w_files (run_sched (replicate 5 (Tick False))
        (start_run HeadFailed (\<lambda>_. GetOk (reply 200 [[7, 8, 9]])) ''downloads/a.rar''
           fresh_item ex_files False False))
       = \<lparr>temp = None, final = Some [7, 8, 9]\<rparr>
   \<and> downloaded (w_item (run_sched (replicate 5 (Tick False))
        (start_run HeadFailed (\<lambda>_. GetOk (reply 200 [[7, 8, 9]])) ''downloads/a.rar''
           fresh_item ex_files False False))) = 3"
proof -
  have h: "temp ex_files = Some [1, 2]" "[1, 2 :: 8 word] \<noteq> []"
    "(\<lambda>_. GetOk (reply 200 [[7, 8, 9]])) (Some (length [1, 2 :: 8 word]))
       = GetOk (reply 200 [[7, 8, 9]])"
    "status_code (reply 200 [[7, 8, 9]]) = 200"
    by (simp_all add: ex_files_def reply_def)
  have b: "body_error (reply 200 [[7, 8, 9]]) = None" "body (reply 200 [[7, 8, 9]]) = [[7, 8, 9]]"
    by (simp_all add: reply_def)
  note T = range_ignored_restart [OF h, of HeadFailed "''downloads/a.rar''" fresh_item False False]
  from T b h show ?thesis by simp
qed

text \<open>
  C10. A worker is in its pause loop with pause set, stop clear and a chunk \<open>c\<close> of at
  most \<^verbatim>\<open>CHUNK_SIZE\<close> bytes in hand, and a further chunk to come. However long it is
  left there it stays in the loop and the partial file stays as it is. Once cancel is
  requested it leaves the loop and writes \<open>c\<close>: the file has grown by \<open>c\<close> while the run
  has not returned and Canceled is not yet emitted; only with the next chunk in hand
  does it see the stop request, emit Canceled and return.
\<close>

theorem cancel_while_paused:
  assumes pc: "w_pc w = CheckPause c (c' # cs) \<or> w_pc w = CheckStop2 c (c' # cs)"
    and fl: "w_pause w" "\<not> w_stop w"
    and t: "temp (w_files w) = Some t"
    and sz: "length c \<le> CHUNK_SIZE"
  shows "(\<forall>n. temp (w_files (run_sched (replicate n (Tick d)) w)) = Some t
             \<and> (w_pc (run_sched (replicate n (Tick d)) w) = CheckPause c (c' # cs)
                \<or> w_pc (run_sched (replicate n (Tick d)) w) = CheckStop2 c (c' # cs)))
     \<and> temp (w_files (run_sched [ReqCancel, Tick d, Tick d, Tick d] w)) = Some (t @ c)
     \<and> w_pc (run_sched [ReqCancel, Tick d, Tick d, Tick d] w) \<noteq> Returned
     \<and> w_out (run_sched [ReqCancel, Tick d, Tick d, Tick d] w)
         = w_out w @
           (if d \<and> c \<noteq> []
            then [ProgressSig (index (w_item w)) (downloaded (w_item w) + int (length c))
                    (or_else (size_bytes (w_item w)) (- 1))]
            else [])
     \<and> w_pc (run_sched [ReqCancel, Tick d, Tick d, Tick d, Tick d, Tick d] w) = Returned
     \<and> temp (w_files (run_sched [ReqCancel, Tick d, Tick d, Tick d, Tick d, Tick d] w))
         = Some (t @ c)
     \<and> w_out (run_sched [ReqCancel, Tick d, Tick d, Tick d, Tick d, Tick d] w)
         = w_out (run_sched [ReqCancel, Tick d, Tick d, Tick d] w)
           @ [StatusSig (index (w_item w)) Canceled]
     \<and> length (t @ c) \<le> length t + CHUNK_SIZE"
proof -
  have wait: "temp (w_files (run_sched (replicate n (Tick d)) v)) = Some t
             \<and> (w_pc (run_sched (replicate n (Tick d)) v) = CheckPause c (c' # cs)
                \<or> w_pc (run_sched (replicate n (Tick d)) v) = CheckStop2 c (c' # cs))"
    if "w_pc v = CheckPause c (c' # cs) \<or> w_pc v = CheckStop2 c (c' # cs)"
      "w_pause v" "\<not> w_stop v" "temp (w_files v) = Some t" for n v
    using that
  proof (induction n arbitrary: v)
    case 0
    then show ?case by simp
  next
    case (Suc n)
    have "(w_pc (tick d v) = CheckPause c (c' # cs) \<or> w_pc (tick d v) = CheckStop2 c (c' # cs))
          \<and> w_pause (tick d v) \<and> \<not> w_stop (tick d v) \<and> temp (w_files (tick d v)) = Some t"
      using Suc.prems by (auto simp: tick_pc)
    with Suc.IH [of "tick d v"] show ?case by simp
  qed
  have a: "\<forall>n. temp (w_files (run_sched (replicate n (Tick d)) w)) = Some t
             \<and> (w_pc (run_sched (replicate n (Tick d)) w) = CheckPause c (c' # cs)
                \<or> w_pc (run_sched (replicate n (Tick d)) w) = CheckStop2 c (c' # cs))"
    using wait [OF pc fl t] by blast
  from pc show ?thesis
  proof
    assume "w_pc w = CheckPause c (c' # cs)"
    with fl t sz a show ?thesis
      by (cases "c = []") (simp_all add: tick_pc)
  next
    assume "w_pc w = CheckStop2 c (c' # cs)"
    with fl t sz a show ?thesis
      by (cases "c = []") (simp_all add: tick_pc)
  qed
qed


lemma step_index: "index (w_item (step e w)) = index (w_item w)"
proof (cases e)
  case (Tick d)
  show ?thesis
  proof (cases "w_pc w")
    case (Fetch cs)
    then show ?thesis
      by (cases cs) (simp_all add: Tick tick_pc fail_run_def finish_run_def Let_def
          split: option.splits)
  qed (simp_all add: Tick tick_pc)
qed simp_all

lemma run_sched_index: "index (w_item (run_sched es w)) = index (w_item w)"
  by (induction es arbitrary: w) (simp_all add: step_index)

lemma tracked_tick:
  assumes "tracked t0 d0 bdy w"
  shows "tracked t0 d0 bdy (tick d w)"
proof (cases "w_pc w")
  case (Fetch cs)
  show ?thesis
  proof (cases cs)
    case Nil
    with Fetch assms show ?thesis
      by (simp add: tracked_def tick_pc fail_run_def finish_run_def Let_def
          split: option.splits)
  next
    case (Cons c cs')
    with Fetch assms show ?thesis
      by (simp add: tracked_def tick_pc pending_def)
  qed
next
  case (CheckStop c cs)
  with assms show ?thesis
    by (auto simp: tracked_def tick_pc pending_def)
next
  case (CheckPause c cs)
  with assms show ?thesis
    by (auto simp: tracked_def tick_pc pending_def)
next
  case (CheckStop2 c cs)
  with assms show ?thesis
    by (auto simp: tracked_def tick_pc pending_def)
next
  case (Write c cs)
  with assms obtain ys where ys: "bdy = ys @ c # cs" "temp (w_files w) = Some (t0 @ concat ys)"
    "downloaded (w_item w) = d0 + int (length (concat ys))"
    by (auto simp: tracked_def pending_def)
  have "bdy = (ys @ [c]) @ cs" using ys(1) by simp
  moreover have "temp (w_files (tick d w)) = Some (t0 @ concat (ys @ [c]))"
    using Write ys(2) by (simp add: tick_pc)
  moreover have "downloaded (w_item (tick d w)) = d0 + int (length (concat (ys @ [c])))"
    using Write ys(3) by (simp add: tick_pc)
  moreover have "w_pc (tick d w) = Fetch cs"
    using Write by (simp add: tick_pc)
  ultimately show ?thesis
    unfolding tracked_def pending_def by (simp del: append_assoc concat_append)
next
  case Returned
  with assms show ?thesis by (simp add: tick_pc)
qed

lemma tracked_flags [simp]:
  "tracked t0 d0 bdy (w\<lparr>w_pause := b\<rparr>) = tracked t0 d0 bdy w"
  "tracked t0 d0 bdy (w\<lparr>w_stop := b\<rparr>) = tracked t0 d0 bdy w"
  by (simp_all add: tracked_def pending_def)

lemma tracked_step: "tracked t0 d0 bdy w \<Longrightarrow> tracked t0 d0 bdy (step e w)"
  by (cases e) (simp_all add: tracked_tick)

lemma tracked_run: "tracked t0 d0 bdy w \<Longrightarrow> tracked t0 d0 bdy (run_sched es w)"
  by (induction es arbitrary: w) (simp_all add: tracked_step)


lemma start_run_index: "index (w_item (start_run hres http_get fpath it fs p st)) = index it"
  by (simp add: start_run_def fetch_def enter_loop_def fail_run_def short_circuit_def Let_def
      split: option.splits head_result.splits get_result.splits prod.splits)

lemma start_run_Returned:
  "w_pc (start_run hres http_get fpath it fs p st) = Returned \<Longrightarrow>
   w_out (start_run hres http_get fpath it fs p st) \<noteq> []
   \<and> last (w_out (start_run hres http_get fpath it fs p st)) \<noteq> StatusSig k Canceled"
  by (simp add: start_run_def fetch_def enter_loop_def fail_run_def short_circuit_def Let_def
      split: option.splits head_result.splits get_result.splits prod.splits if_splits)

lemma start_run_loop:
  "w_pc (start_run hres http_get fpath it fs p st) \<noteq> Returned \<Longrightarrow>
   \<exists>t0. temp (w_files (start_run hres http_get fpath it fs p st)) = Some t0
      \<and> w_pc (start_run hres http_get fpath it fs p st)
          = Fetch (pending (start_run hres http_get fpath it fs p st))
      \<and> (resume_offset fs \<noteq> 0 \<longrightarrow>
            downloaded (w_item (start_run hres http_get fpath it fs p st)) = int (length t0))
      \<and> (resume_offset fs = 0 \<longrightarrow>
            t0 = [] \<and> downloaded (w_item (start_run hres http_get fpath it fs p st))
                       = downloaded it)"
  by (auto simp: start_run_def fetch_def enter_loop_def fail_run_def short_circuit_def Let_def
      resume_offset_def pending_def
      split: option.splits head_result.splits get_result.splits prod.splits if_splits)

lemma start_run_range:
  "temp fs = Some t \<Longrightarrow>
   w_range (start_run hres http_get fpath it fs p st)
     = (if t = [] then None else Some (length t))"
  by (simp add: start_run_def fetch_def enter_loop_def fail_run_def Let_def resume_offset_def
      split: option.splits head_result.splits get_result.splits prod.splits)

lemma start_run_206:
  "temp fs = Some t \<Longrightarrow> t \<noteq> [] \<Longrightarrow> http_get (Some (length t)) = GetOk r \<Longrightarrow>
   status_code r = 206 \<Longrightarrow>
   w_files (start_run hres http_get fpath it fs p st) = fs
   \<and> downloaded (w_item (start_run hres http_get fpath it fs p st)) = int (length t)
   \<and> w_pc (start_run hres http_get fpath it fs p st) = Fetch (body r)
   \<and> w_pause (start_run hres http_get fpath it fs p st) = p
   \<and> w_stop (start_run hres http_get fpath it fs p st) = st
   \<and> w_stream_error (start_run hres http_get fpath it fs p st) = body_error r"
  by (simp add: start_run_def fetch_def enter_loop_def Let_def resume_offset_def
      split: head_result.splits)


text \<open>
  The partial file after a cancel. A run that returned through the cancel branch
  entered its loop with some content \<open>t0\<close> in the partial file (the resumed part, or
  nothing) and leaves the file holding \<open>t0\<close> followed by the chunks taken before the
  one in hand, in order: its length is the bytes written so far, and the item's byte
  count has grown by as much. Nothing that happens to the returned run changes the
  file, and a next run of the item asks for the range from exactly that length (no
  Range header for an empty file); if the server answers 206 the file is kept when the
  loop is entered.
\<close>

lemma cancel_preserves_partial:
  assumes w0: "w0 = start_run hres http_get fpath it fs p st"
    and w: "w = run_sched evs w0"
    and ret: "w_pc w = Returned"
    and can: "last (w_out w) = StatusSig (index it) Canceled"
  shows "\<exists>t0 ys c zs.
       temp (w_files w0) = Some t0 \<and> pending w0 = ys @ c # zs
     \<and> temp (w_files w) = Some (t0 @ concat ys)
     \<and> resume_offset (w_files w) = length t0 + length (concat ys)
     \<and> downloaded (w_item w) = downloaded (w_item w0) + int (length (concat ys))
     \<and> downloaded (w_item w)
         = int (length (t0 @ concat ys)) + (if resume_offset fs = 0 then downloaded it else 0)
     \<and> (\<forall>evs'. w_files (run_sched evs' w) = w_files w)
     \<and> (\<forall>hres' get' p' st'.
           w_range (start_run hres' get' fpath (w_item w) (w_files w) p' st')
             = (if t0 @ concat ys = [] then None else Some (length (t0 @ concat ys))))
     \<and> (\<forall>hres' get' p' st' r'.
           t0 @ concat ys \<noteq> [] \<and> get' (Some (length (t0 @ concat ys))) = GetOk r'
           \<and> status_code r' = 206 \<longrightarrow>
             w_files (start_run hres' get' fpath (w_item w) (w_files w) p' st') = w_files w
           \<and> downloaded (w_item (start_run hres' get' fpath (w_item w) (w_files w) p' st'))
               = int (length (t0 @ concat ys))
           \<and> w_pc (start_run hres' get' fpath (w_item w) (w_files w) p' st') = Fetch (body r'))"
proof -
  have idx: "index (w_item w) = index it"
    by (simp add: w w0 run_sched_index start_run_index)
  have loop: "w_pc w0 \<noteq> Returned"
  proof
    assume r0: "w_pc w0 = Returned"
    with run_sched_Returned [OF r0, of evs] have "w_out w = w_out w0" by (simp add: w)
    with start_run_Returned [of hres http_get fpath it fs p st "index it"] r0 can
    show False by (simp add: w0)
  qed
  note L = start_run_loop [of hres http_get fpath it fs p st, folded w0]
  from L [OF loop] obtain t0 where t0c:
    "temp (w_files w0) = Some t0
      \<and> w_pc w0 = Fetch (pending w0)
      \<and> (resume_offset fs \<noteq> 0 \<longrightarrow> downloaded (w_item w0) = int (length t0))
      \<and> (resume_offset fs = 0 \<longrightarrow> t0 = [] \<and> downloaded (w_item w0) = downloaded it)" ..
  then have t0: "temp (w_files w0) = Some t0" "w_pc w0 = Fetch (pending w0)"
    "resume_offset fs \<noteq> 0 \<longrightarrow> downloaded (w_item w0) = int (length t0)"
    "resume_offset fs = 0 \<longrightarrow> t0 = [] \<and> downloaded (w_item w0) = downloaded it"
    by simp_all
  have "tracked t0 (downloaded (w_item w0)) (pending w0) w0"
    using loop t0(1) by (simp add: tracked_def)
  then have "tracked t0 (downloaded (w_item w0)) (pending w0) w"
    unfolding w by (rule tracked_run)
  with ret can idx obtain ys c zs where tr: "pending w0 = ys @ c # zs"
    "temp (w_files w) = Some (t0 @ concat ys)"
    "downloaded (w_item w) = downloaded (w_item w0) + int (length (concat ys))"
    by (auto simp: tracked_def)
  have off: "resume_offset (w_files w) = length t0 + length (concat ys)"
    by (simp add: resume_offset_def tr(2))
  have dl: "downloaded (w_item w)
         = int (length (t0 @ concat ys)) + (if resume_offset fs = 0 then downloaded it else 0)"
    using t0(3) t0(4) tr(3) by (cases "resume_offset fs = 0") simp_all
  have still: "\<forall>evs'. w_files (run_sched evs' w) = w_files w"
    using run_sched_Returned [OF ret] by blast
  have rng: "\<forall>hres' get' p' st'.
           w_range (start_run hres' get' fpath (w_item w) (w_files w) p' st')
             = (if t0 @ concat ys = [] then None else Some (length (t0 @ concat ys)))"
    using start_run_range [OF tr(2)] by blast
  have again: "\<forall>hres' get' p' st' r'.
           t0 @ concat ys \<noteq> [] \<and> get' (Some (length (t0 @ concat ys))) = GetOk r'
           \<and> status_code r' = 206 \<longrightarrow>
             w_files (start_run hres' get' fpath (w_item w) (w_files w) p' st') = w_files w
           \<and> downloaded (w_item (start_run hres' get' fpath (w_item w) (w_files w) p' st'))
               = int (length (t0 @ concat ys))
           \<and> w_pc (start_run hres' get' fpath (w_item w) (w_files w) p' st') = Fetch (body r')"
    using start_run_206 [OF tr(2)] by blast
  from t0(1) tr(1) tr(2) off tr(3) dl still rng again show ?thesis by blast
qed


lemmas run_defs =
  ex_canceled_def ex_paused_def ex_server_def reply_def fresh_item_def no_files_def
  start_run_def fetch_def enter_loop_def resume_offset_def Let_def tick.simps

lemma cancel_preserves_partial_example:
  "w_pc ex_canceled = Returned
   \<and> last (w_out ex_canceled) = StatusSig (index fresh_item) Canceled
   \<and> temp (w_files ex_canceled) = Some [1, 2, 3]
   \<and> downloaded (w_item ex_canceled) = 3
   \<and> w_files (run_sched [Tick True, ReqResume, Tick True] ex_canceled) = w_files ex_canceled
   \<and> w_range (start_run HeadFailed ex_server ''downloads/a.rar'' (w_item ex_canceled)
                (w_files ex_canceled) False True) = Some 3"
proof -
  have ret: "w_pc ex_canceled = Returned"
    and can: "last (w_out ex_canceled) = StatusSig (index fresh_item) Canceled"
    and tmp: "temp (w_files ex_canceled) = Some [1, 2, 3]"
    and dl: "downloaded (w_item ex_canceled) = 3"
    by (simp_all add: run_defs)
  from cancel_preserves_partial [OF refl ex_canceled_def ret can]
  obtain t0 ys where
    a: "temp (w_files ex_canceled) = Some (t0 @ concat ys)"
    and b: "\<forall>evs'. w_files (run_sched evs' ex_canceled) = w_files ex_canceled"
    and c: "\<forall>hres' get' p' st'.
           w_range (start_run hres' get' ''downloads/a.rar'' (w_item ex_canceled)
                      (w_files ex_canceled) p' st')
             = (if t0 @ concat ys = [] then None else Some (length (t0 @ concat ys)))"
    by (elim exE conjE) (rule that, assumption+)
  from a tmp have eq: "t0 @ concat ys = [1, 2, 3]" by simp
  from b have still: "w_files (run_sched [Tick True, ReqResume, Tick True] ex_canceled)
      = w_files ex_canceled" by blast
  from c have "w_range (start_run HeadFailed ex_server ''downloads/a.rar'' (w_item ex_canceled)
                (w_files ex_canceled) False True)
      = (if t0 @ concat ys = [] then None else Some (length (t0 @ concat ys)))" by blast
  then have rng: "w_range (start_run HeadFailed ex_server ''downloads/a.rar''
      (w_item ex_canceled) (w_files ex_canceled) False True) = Some 3"
    by (simp only: eq) simp
  from ret can tmp dl still rng show ?thesis by blast
qed

theorem cancel_while_paused_witness:
  "w_pc ex_paused = CheckPause [1, 2, 3] ([4, 5] # [[6]])
   \<and> w_pause ex_paused \<and> \<not> w_stop ex_paused
   \<and> temp (w_files ex_paused) = Some []
   \<and> length [1, 2, 3 :: 8 word] \<le> CHUNK_SIZE
   \<and> temp (w_files (run_sched (replicate 7 (Tick False)) ex_paused)) = Some []
   \<and> temp (w_files (run_sched [ReqCancel, Tick False, Tick False, Tick False] ex_paused))
       = Some [1, 2, 3]
   \<and> w_pc (run_sched
        [ReqCancel, Tick False, Tick False, Tick False, Tick False, Tick False] ex_paused)
       = Returned"
proof -
  have pc: "w_pc ex_paused = CheckPause [1, 2, 3] ([4, 5] # [[6]])"
    and fl: "w_pause ex_paused" "\<not> w_stop ex_paused"
    and t: "temp (w_files ex_paused) = Some []"
    and sz: "length [1, 2, 3 :: 8 word] \<le> CHUNK_SIZE"
    by (simp_all add: run_defs CHUNK_SIZE_def)
  from pc have pc': "w_pc ex_paused = CheckPause [1, 2, 3] ([4, 5] # [[6]])
      \<or> w_pc ex_paused = CheckStop2 [1, 2, 3] ([4, 5] # [[6]])" by blast
  note T = cancel_while_paused [OF pc' fl t sz, of False]
  from T have 1: "temp (w_files (run_sched (replicate 7 (Tick False)) ex_paused)) = Some []"
    by blast
  from T have 2: "temp (w_files (run_sched [ReqCancel, Tick False, Tick False, Tick False]
      ex_paused)) = Some ([] @ [1, 2, 3])" by blast
  from T have 3: "w_pc (run_sched
        [ReqCancel, Tick False, Tick False, Tick False, Tick False, Tick False] ex_paused)
       = Returned" by blast
  from pc fl t sz 1 2 3 show ?thesis by simp
qed

text \<open>A run whose stop event is set takes a chunk and returns: it writes nothing.\<close>

lemma stopped_run_writes_nothing:
  "w_stop w \<Longrightarrow> w_pc w = Fetch (c # cs) \<or> w_pc w = CheckStop c cs \<or> w_pc w = Returned \<Longrightarrow>
   w_files (run_sched es w) = w_files w"
proof (induction es arbitrary: w)
  case Nil
  then show ?case by simp
next
  case (Cons e es)
  have "w_stop (step e w)
        \<and> (w_pc (step e w) = Fetch (c # cs) \<or> w_pc (step e w) = CheckStop c cs
            \<or> w_pc (step e w) = Returned)
        \<and> w_files (step e w) = w_files w"
    using Cons.prems by (cases e) (auto simp: tick_pc)
  with Cons.IH [of "step e w"] show ?case by simp
qed

text \<open>
  C6. The run that follows a cancel is claimed to resume from the length of the partial
  file with no byte lost. Cancel Selected sets the worker's stop event, and no method
  clears it; a later pump cycle admits the Canceled item again with the same worker,
  calling only \<^verbatim>\<open>request_resume\<close>, and Resume Selected marks the item Downloading
  and hands nothing to the thread pool. So the next run of the item that was cancelled with
  three bytes in its partial file starts with stop set: it asks for the range from 3,
  and when the server answers 206 it opens the file to append, takes the first chunk,
  emits Canceled and returns; whatever happens, the file stays at three bytes and the
  final file never appears. When the server answers 200 the file is opened truncated
  before the run returns in the same way, and the three bytes are gone.
\<close>

theorem canceled_worker_never_resumes:
  "(\<exists>s1. cancel_selected [0] one_running = Inr s1
       \<and> statuses s1 = [Canceled]
       \<and> stop (wstore s1 0)
       \<and> statuses (start_queue s1) = [Downloading]
       \<and> workers (start_queue s1) = [(0, 0)]
       \<and> started (start_queue s1) = [0, 0]
       \<and> \<not> pause (wstore (start_queue s1) 0)
       \<and> stop (wstore (start_queue s1) 0))
   \<and> (\<exists>s1 s2. cancel_selected [0] one_running = Inr s1
       \<and> resume_selected [0] s1 = Inr s2
       \<and> statuses s2 = [Downloading]
       \<and> started s2 = started s1
       \<and> stop (wstore s2 0))
   \<and> w_files ex_canceled = \<lparr>temp = Some [1, 2, 3], final = None\<rparr>
   \<and> w_range (ex_rerun resume_server) = Some 3
   \<and> w_pc (ex_rerun resume_server) = Fetch [[4, 5], [6]]
   \<and> w_files (ex_rerun resume_server) = \<lparr>temp = Some [1, 2, 3], final = None\<rparr>
   \<and> w_out (run_sched [Tick False, Tick False] (ex_rerun resume_server))
       = [StatusSig 0 Downloading, StatusSig 0 Canceled]
   \<and> w_pc (run_sched [Tick False, Tick False] (ex_rerun resume_server)) = Returned
   \<and> (\<forall>es. w_files (run_sched es (ex_rerun resume_server))
             = \<lparr>temp = Some [1, 2, 3], final = None\<rparr>)
   \<and> w_range (ex_rerun ex_server) = Some 3
   \<and> w_out (run_sched [Tick False, Tick False] (ex_rerun ex_server))
       = [StatusSig 0 Downloading, StatusSig 0 Canceled]
   \<and> (\<forall>es. w_files (run_sched es (ex_rerun ex_server)) = \<lparr>temp = Some [], final = None\<rparr>)"
proof -
  have sched: "\<exists>s1. cancel_selected [0] one_running = Inr s1
       \<and> statuses s1 = [Canceled]
       \<and> stop (wstore s1 0)
       \<and> statuses (start_queue s1) = [Downloading]
       \<and> workers (start_queue s1) = [(0, 0)]
       \<and> started (start_queue s1) = [0, 0]
       \<and> \<not> pause (wstore (start_queue s1) 0)
       \<and> stop (wstore (start_queue s1) 0)"
    by (simp add: scenario_defs statuses_def cancel_selected_def)
  have resel: "\<exists>s1 s2. cancel_selected [0] one_running = Inr s1
       \<and> resume_selected [0] s1 = Inr s2
       \<and> statuses s2 = [Downloading]
       \<and> started s2 = started s1
       \<and> stop (wstore s2 0)"
    by (simp add: scenario_defs statuses_def cancel_selected_def resume_selected_def)
  have can: "w_files ex_canceled = \<lparr>temp = Some [1, 2, 3], final = None\<rparr>"
    "w_item ex_canceled = fresh_item\<lparr>downloaded := 3\<rparr>"
    by (simp_all add: run_defs)
  have r206: "w_range (ex_rerun resume_server) = Some 3"
    "w_pc (ex_rerun resume_server) = Fetch [[4, 5], [6]]"
    "w_files (ex_rerun resume_server) = \<lparr>temp = Some [1, 2, 3], final = None\<rparr>"
    "w_stop (ex_rerun resume_server)"
    "w_out (ex_rerun resume_server) = [StatusSig 0 Downloading]"
    "index (w_item (ex_rerun resume_server)) = 0"
    by (simp_all add: ex_rerun_def can resume_server_def reply_def fresh_item_def
        start_run_def fetch_def enter_loop_def resume_offset_def Let_def)
  have r200: "w_range (ex_rerun ex_server) = Some 3"
    "w_pc (ex_rerun ex_server) = Fetch [[1, 2, 3], [4, 5], [6]]"
    "w_files (ex_rerun ex_server) = \<lparr>temp = Some [], final = None\<rparr>"
    "w_stop (ex_rerun ex_server)"
    "w_out (ex_rerun ex_server) = [StatusSig 0 Downloading]"
    "index (w_item (ex_rerun ex_server)) = 0"
    by (simp_all add: ex_rerun_def can ex_server_def reply_def fresh_item_def
        start_run_def fetch_def enter_loop_def resume_offset_def Let_def)
  have o206: "w_out (run_sched [Tick False, Tick False] (ex_rerun resume_server))
       = [StatusSig 0 Downloading, StatusSig 0 Canceled]"
    "w_pc (run_sched [Tick False, Tick False] (ex_rerun resume_server)) = Returned"
    using r206 by (simp_all add: tick_pc)
  have o200: "w_out (run_sched [Tick False, Tick False] (ex_rerun ex_server))
       = [StatusSig 0 Downloading, StatusSig 0 Canceled]"
    using r200 by (simp add: tick_pc)
  have f206: "\<forall>es. w_files (run_sched es (ex_rerun resume_server))
             = \<lparr>temp = Some [1, 2, 3], final = None\<rparr>"
    using stopped_run_writes_nothing [OF r206(4), of "[4, 5]" "[[6]]"] r206(2) r206(3)
    by simp
  have f200: "\<forall>es. w_files (run_sched es (ex_rerun ex_server))
             = \<lparr>temp = Some [], final = None\<rparr>"
    using stopped_run_writes_nothing [OF r200(4), of "[1, 2, 3]" "[[4, 5], [6]]"] r200(2) r200(3)
    by simp
  from sched resel can(1) r206(1) r206(2) r206(3) o206 f206 r200(1) o200 f200
  show ?thesis by (intro conjI)
qed

end
